theory Spec2Isabelle
  imports Main "HOL-Library.Word" "HOL-Library.Multiset"
begin

section \<open>The on-chip SRAM driver (drivers/misc/sram.c)\<close>

text \<open>
  The driver carves a memory resource into the chunks of a \<open>gen_pool\<close>, leaving out
  the blocks that the children of its device-tree node reserve. The model follows
  \<open>sram_reserve_regions\<close>, \<open>sram_probe\<close> and \<open>sram_remove\<close> line by line.

  Integer types. \<open>u32\<close> is \<open>32 word\<close>. \<open>resource_size_t\<close> and \<open>unsigned long\<close>
  are declared outside sram.c; they are taken as 64 bits wide (the specification gives
  the region a \<open>u64\<close> size, and both types are 64 bits on a 64-bit kernel). A conversion
  between the widths is \<open>ucast\<close>: it truncates from 64 to 32 bits and zero-extends from
  32 to 64 bits, as the C assignments do. The region of exactly \<open>2 ^ 32\<close> bytes, from
  address 0 to \<open>0xFFFFFFFF\<close>, is the smallest whose size does not fit a \<open>u32\<close>.
\<close>

subsection \<open>Data\<close>

text \<open>\<open>struct resource\<close>: an inclusive range of physical addresses.\<close>

record resource =
  res_start :: "64 word"
  res_end :: "64 word"

text \<open>\<open>resource_size(res)\<close> is \<open>res->end - res->start + 1\<close>.\<close>

definition resource_size :: "resource \<Rightarrow> 64 word" where
  "resource_size r = res_end r - res_start r + 1"

text \<open>\<open>struct sram_reserve\<close>; the list linkage is the HOL list that holds the blocks.\<close>

record sram_reserve =
  start :: "32 word"
  size_r :: "32 word"

subsection \<open>Sorting the reserved blocks\<close>

text \<open>
  \<open>sram_reserve_cmp\<close> returns \<open>ra->start - rb->start\<close>: the subtraction is done on
  \<open>u32\<close> and the result converted to \<open>int\<close>, that is, read as two's complement.
\<close>

definition sram_reserve_cmp :: "sram_reserve \<Rightarrow> sram_reserve \<Rightarrow> int" where
  "sram_reserve_cmp ra rb = sint (start ra - start rb)"

text \<open>
  Modelled from the spec: \<open>list_sort\<close> (lib/list_sort.c) is not part of the driver's
  file. The specification asks for a stable sort that is driven by the comparator
  (section 4.2 step 4, section 9); \<open>a\<close> stays in front of \<open>b\<close> when \<open>cmp a b \<le> 0\<close>, as in
  the kernel's merge step. It is written here as a stable insertion sort.
\<close>

fun list_insert :: "('a \<Rightarrow> 'a \<Rightarrow> int) \<Rightarrow> 'a \<Rightarrow> 'a list \<Rightarrow> 'a list" where
  "list_insert cmp x [] = [x]"
| "list_insert cmp x (y # ys) =
     (if cmp x y \<le> 0 then x # y # ys else y # list_insert cmp x ys)"

definition list_sort :: "('a \<Rightarrow> 'a \<Rightarrow> int) \<Rightarrow> 'a list \<Rightarrow> 'a list" where
  "list_sort cmp xs = foldr (list_insert cmp) xs []"

subsection \<open>Errors\<close>

text \<open>
  One constructor for each place where the driver gives up. The C functions return a
  negative errno (\<open>errno\<close> below); the two \<open>-EINVAL\<close> exits of \<open>sram_reserve_regions\<close>
  differ by the message they log and are kept apart:
  \<open>OutOfBounds\<close> is "reserved block %s outside the sram area",
  \<open>OverlapDetected\<close> is "block at 0x%x starts after current offset 0x%lx".
\<close>

datatype error =
    Enomem
  | AddressError int
  | OutOfBounds
  | OverlapDetected
  | AllocatorRegistrationFailed int
  | NoMemResource
  | RegionBusy
  | IOError int
  | PoolCreateFailed int

definition ENOMEM :: int where "ENOMEM = 12"
definition EBUSY :: int where "EBUSY = 16"
definition EINVAL :: int where "EINVAL = 22"

fun errno :: "error \<Rightarrow> int" where
  "errno Enomem = - ENOMEM"
| "errno (AddressError ret) = ret"
| "errno OutOfBounds = - EINVAL"
| "errno OverlapDetected = - EINVAL"
| "errno (AllocatorRegistrationFailed ret) = ret"
| "errno NoMemResource = - EINVAL"
| "errno RegionBusy = - EBUSY"
| "errno (IOError ret) = ret"
| "errno (PoolCreateFailed ret) = ret"

subsection \<open>The allocator pool\<close>

text \<open>
  Modelled from the spec: \<open>struct gen_pool\<close> and its functions (lib/genalloc.c) are
  not part of the driver's file. Following sections 3, 4.4 and 6 of the specification the
  pool is the list of the chunks registered so far, each with its mapped address, its
  physical address, its size and the bytes of it still available; the total capacity and
  the available capacity add these up. A registration either appends the chunk and
  returns 0, or is rejected for lack of memory (the parameter \<open>chunk_alloc\<close> decides) and
  returns \<open>-ENOMEM\<close>.
\<close>

record chunk =
  virt :: "64 word"
  phys :: "64 word"
  csize :: "64 word"
  avail :: "64 word"

type_synonym gen_pool = "chunk list"

definition gen_pool_size :: "gen_pool \<Rightarrow> 64 word" where
  "gen_pool_size p = sum_list (map csize p)"

definition gen_pool_avail :: "gen_pool \<Rightarrow> 64 word" where
  "gen_pool_avail p = sum_list (map avail p)"

definition gen_pool_add_virt ::
  "(gen_pool \<Rightarrow> chunk \<Rightarrow> bool) \<Rightarrow> gen_pool \<Rightarrow> 64 word \<Rightarrow> 64 word \<Rightarrow> 64 word \<Rightarrow> int \<times> gen_pool" where
  "gen_pool_add_virt chunk_alloc p v ph sz =
     (let c = \<lparr>virt = v, phys = ph, csize = sz, avail = sz\<rparr>
      in if chunk_alloc p c then (0, p @ [c]) else (- ENOMEM, p))"

text \<open>The pool that has memory for every registration.\<close>

definition never_rejects :: "gen_pool \<Rightarrow> chunk \<Rightarrow> bool" where
  "never_rejects p c = True"

subsection \<open>The device\<close>

text \<open>
  An available child of the device-tree node, seen through
  \<open>of_address_to_resource(child, 0, &child_res)\<close>: the call either fails with a negative
  errno or fills in the child's resource.
\<close>

datatype device_node = Unresolved int | Reg resource

text \<open>
  \<open>struct sram_dev\<close>. \<open>of_node\<close> stands for \<open>sram->dev->of_node\<close> and holds the
  available children in the order \<open>for_each_available_child_of_node\<close> visits them (no
  children when the node is NULL). \<open>clk\<close> is \<open>None\<close> for a NULL clock and otherwise
  tells whether the clock is enabled.
\<close>

record sram_dev =
  of_node :: "device_node list"
  virt_base :: "64 word"
  pool :: gen_pool
  clk :: "bool option"

subsection \<open>\<open>sram_reserve_regions\<close>\<close>

text \<open>
  The first loop: one block for each child, in the order of the children; the first child
  that cannot be resolved or lies outside the resource ends the function. \<open>outside\<close> is
  the test \<open>child_res.start < res->start || child_res.end > res->end\<close>, and
  \<open>child_block\<close> the two assignments to \<open>block->start\<close> and \<open>block->size\<close>, which
  truncate to \<open>u32\<close>.
\<close>

definition outside :: "resource \<Rightarrow> resource \<Rightarrow> bool" where
  "outside res child_res =
     (res_start child_res < res_start res \<or> res_end res < res_end child_res)"

definition child_block :: "resource \<Rightarrow> resource \<Rightarrow> sram_reserve" where
  "child_block res child_res =
     \<lparr>start = ucast (res_start child_res - res_start res),
      size_r = ucast (resource_size child_res)\<rparr>"

fun read_children :: "resource \<Rightarrow> device_node list \<Rightarrow> error + sram_reserve list" where
  "read_children res [] = Inr []"
| "read_children res (Unresolved ret # cs) = Inl (AddressError ret)"
| "read_children res (Reg child_res # cs) =
     (if outside res child_res then Inl OutOfBounds
      else case read_children res cs of
             Inl e \<Rightarrow> Inl e
           | Inr blocks \<Rightarrow> Inr (child_block res child_res # blocks))"

text \<open>
  The second loop, over the sorted list. \<open>block->start + block->size\<close> is a sum of two
  \<open>u32\<close> and wraps at 32 bits before it is widened to \<open>unsigned long\<close>; the comparisons
  and \<open>block->start - cur_start\<close> are done on \<open>unsigned long\<close>.
\<close>

fun scan_blocks ::
  "(gen_pool \<Rightarrow> chunk \<Rightarrow> bool) \<Rightarrow> 64 word \<Rightarrow> resource \<Rightarrow> sram_reserve list \<Rightarrow> 64 word \<Rightarrow> gen_pool
     \<Rightarrow> error option \<times> gen_pool" where
  "scan_blocks chunk_alloc vb res [] cur_start p = (None, p)"
| "scan_blocks chunk_alloc vb res (block # bs) cur_start p =
     (if ucast (start block) < cur_start then (Some OverlapDetected, p)
      else if ucast (start block) = cur_start
      then scan_blocks chunk_alloc vb res bs (ucast (start block + size_r block)) p
      else
        let cur_size = ucast (start block) - cur_start;
            r = gen_pool_add_virt chunk_alloc p (vb + cur_start) (res_start res + cur_start) cur_size
        in if fst r < 0 then (Some (AllocatorRegistrationFailed (fst r)), snd r)
           else scan_blocks chunk_alloc vb res bs (ucast (start block + size_r block)) (snd r))"

text \<open>
  The values \<open>cur_start\<close> takes, one for each time the loop of a run without an error
  reaches its head, and the value it has when the loop is left.
\<close>

fun cursor_trace :: "sram_reserve list \<Rightarrow> 64 word \<Rightarrow> 64 word list" where
  "cursor_trace [] cur_start = [cur_start]"
| "cursor_trace (block # bs) cur_start =
     cur_start # cursor_trace bs (ucast (start block + size_r block))"

text \<open>The block that marks the end of the region: \<open>rblocks[nblocks - 1]\<close>.\<close>

definition end_block :: "resource \<Rightarrow> sram_reserve" where
  "end_block res = \<lparr>start = ucast (resource_size res), size_r = 0\<rparr>"

text \<open>
  \<open>kmalloc_ok\<close> tells whether the allocation of \<open>rblocks\<close> succeeds. The result is the
  error, if any, and the device with the pool as the function leaves it.
\<close>

definition sram_reserve_regions ::
  "(gen_pool \<Rightarrow> chunk \<Rightarrow> bool) \<Rightarrow> bool \<Rightarrow> sram_dev \<Rightarrow> resource \<Rightarrow> error option \<times> sram_dev" where
  "sram_reserve_regions chunk_alloc kmalloc_ok sram res =
     (if \<not> kmalloc_ok then (Some Enomem, sram)
      else case read_children res (of_node sram) of
             Inl e \<Rightarrow> (Some e, sram)
           | Inr blocks \<Rightarrow>
               let reserve_list = blocks @ [end_block res];
                   sorted_list = list_sort sram_reserve_cmp reserve_list;
                   r = scan_blocks chunk_alloc (virt_base sram) res sorted_list 0 (pool sram)
               in (fst r, sram\<lparr>pool := snd r\<rparr>))"

subsection \<open>\<open>sram_probe\<close> and \<open>sram_remove\<close>\<close>

text \<open>
  What the platform answers to the calls of \<open>sram_probe\<close>, in the order of the calls:
  \<open>devm_kzalloc\<close>, \<open>platform_get_resource\<close>, \<open>devm_request_mem_region\<close>,
  \<open>devm_ioremap_wc\<close> (an error pointer or the mapped base), \<open>devm_gen_pool_create\<close>
  (an error pointer or an empty pool), the children of the node, \<open>kmalloc\<close>, the
  registrations with the pool, and \<open>devm_clk_get\<close>.
\<close>

record platform_device =
  kzalloc_ok :: bool
  mem_resource :: "resource option"
  request_mem_region_ok :: bool
  ioremap_wc :: "int + 64 word"
  gen_pool_create_err :: "int option"
  np :: "device_node list"
  rblocks_ok :: bool
  chunk_ok :: "gen_pool \<Rightarrow> chunk \<Rightarrow> bool"
  clk_get_ok :: bool

text \<open>
  \<open>Inr\<close> is the device that \<open>platform_set_drvdata\<close> publishes when the function
  returns 0; on every error nothing is published and the device-managed pool goes away
  with the failed probe.
\<close>

definition sram_probe :: "platform_device \<Rightarrow> error + sram_dev" where
  "sram_probe pdev =
     (if \<not> kzalloc_ok pdev then Inl Enomem
      else case mem_resource pdev of
        None \<Rightarrow> Inl NoMemResource
      | Some res \<Rightarrow>
          if \<not> request_mem_region_ok pdev then Inl RegionBusy
          else case ioremap_wc pdev of
            Inl e \<Rightarrow> Inl (IOError e)
          | Inr vb \<Rightarrow>
              (case gen_pool_create_err pdev of
                Some e \<Rightarrow> Inl (PoolCreateFailed e)
              | None \<Rightarrow>
                  let sram = \<lparr>of_node = np pdev, virt_base = vb, pool = [], clk = None\<rparr>;
                      r = sram_reserve_regions (chunk_ok pdev) (rblocks_ok pdev) sram res
                  in case fst r of
                       Some e \<Rightarrow> Inl e
                     | None \<Rightarrow>
                         Inr ((snd r)\<lparr>clk := if clk_get_ok pdev then Some True else None\<rparr>)))"

text \<open>
  \<open>sram_remove\<close>: the return value, the messages logged with \<open>dev_err\<close>, and the device
  after \<open>clk_disable_unprepare\<close>.
\<close>

datatype message = Removed_while_allocated

definition sram_remove :: "sram_dev \<Rightarrow> int \<times> message list \<times> sram_dev" where
  "sram_remove sram =
     (let msgs = (if gen_pool_avail (pool sram) < gen_pool_size (pool sram)
                  then [Removed_while_allocated] else []);
          sram' = (case clk sram of None \<Rightarrow> sram | Some _ \<Rightarrow> sram\<lparr>clk := Some False\<rparr>)
      in (0, msgs, sram'))"

section \<open>The specification's terms\<close>

text \<open>
  The specification speaks of offsets and sizes as unbounded numbers. An interval is a
  pair of a start and a size; it covers the offsets from its start up to, not including,
  its start plus its size.
\<close>

type_synonym interval = "nat \<times> nat"

definition covers :: "interval \<Rightarrow> nat \<Rightarrow> bool" where
  "covers i x = (fst i \<le> x \<and> x < fst i + snd i)"

text \<open>How many intervals of a list cover an offset.\<close>

definition cover_count :: "interval list \<Rightarrow> nat \<Rightarrow> nat" where
  "cover_count ivs x = length (filter (\<lambda>i. covers i x) ivs)"

text \<open>\<open>Region.size\<close>, the number of addresses of an inclusive range.\<close>

definition region_size :: "resource \<Rightarrow> nat" where
  "region_size res = unat (res_end res) + 1 - unat (res_start res)"

text \<open>
  A resource describes a range when its end is not more than one address before its
  start (one before: the empty range). The reserved interval of a child is its range
  relative to the base of the region (section 4.2 step 1).
\<close>

definition well_formed :: "resource \<Rightarrow> bool" where
  "well_formed c = (unat (res_start c) \<le> unat (res_end c) + 1)"

definition reserved_interval :: "resource \<Rightarrow> resource \<Rightarrow> interval" where
  "reserved_interval res c = (unat (res_start c) - unat (res_start res), region_size c)"

text \<open>The bounds rule of section 4.2 step 2, on unbounded numbers.\<close>

definition out_of_bounds :: "resource \<Rightarrow> resource \<Rightarrow> bool" where
  "out_of_bounds res c =
     (unat (res_start c) < unat (res_start res) \<or>
      region_size res < fst (reserved_interval res c) + snd (reserved_interval res c))"

text \<open>The interval a block stands for, and the chunk that registers a free span.\<close>

definition block_interval :: "sram_reserve \<Rightarrow> interval" where
  "block_interval b = (unat (start b), unat (size_r b))"

definition span_chunk :: "64 word \<Rightarrow> resource \<Rightarrow> interval \<Rightarrow> chunk" where
  "span_chunk vb res sp =
     \<lparr>virt = vb + of_nat (fst sp), phys = res_start res + of_nat (fst sp),
      csize = of_nat (snd sp), avail = of_nat (snd sp)\<rparr>"

text \<open>
  The Gap Resolver of section 4.3, written after the specification's words: one pass
  over the sorted intervals with a cursor; \<open>None\<close> is \<open>OverlapDetected\<close>.
\<close>

fun gap_resolver :: "interval list \<Rightarrow> nat \<Rightarrow> interval list option" where
  "gap_resolver [] cursor = Some []"
| "gap_resolver (b # bs) cursor =
     (if fst b < cursor then None
      else if fst b = cursor then gap_resolver bs (fst b + snd b)
      else map_option ((#) (cursor, fst b - cursor)) (gap_resolver bs (fst b + snd b)))"

text \<open>The cursor after the last interval, and the cursors on the way.\<close>

fun final_cursor :: "interval list \<Rightarrow> nat \<Rightarrow> nat" where
  "final_cursor [] cursor = cursor"
| "final_cursor (b # bs) cursor = final_cursor bs (fst b + snd b)"

fun cursors :: "interval list \<Rightarrow> nat \<Rightarrow> nat list" where
  "cursors [] cursor = [cursor]"
| "cursors (b # bs) cursor = cursor # cursors bs (fst b + snd b)"

text \<open>All children of a node whose address resolves.\<close>

definition resolved :: "resource list \<Rightarrow> device_node list" where
  "resolved cs = map Reg cs"

text \<open>A region that is not empty and smaller than \<open>n\<close> bytes.\<close>

definition region_below :: "nat \<Rightarrow> resource \<Rightarrow> bool" where
  "region_below n res = (unat (res_start res) \<le> unat (res_end res) \<and> region_size res < n)"

text \<open>The blocks of the reservations in the order in which the second loop meets them.\<close>

definition sorted_blocks :: "resource \<Rightarrow> resource list \<Rightarrow> sram_reserve list" where
  "sorted_blocks res cs = list_sort sram_reserve_cmp (map (child_block res) cs)"

section \<open>Properties\<close>

subsection \<open>Conversions between the widths\<close>

lemma uint_small: "unat (x :: 32 word) < 2 ^ 31 \<Longrightarrow> uint x < 2 ^ 31"
  by (metis of_nat_unat of_nat_less_iff of_nat_numeral of_nat_power)

lemma sint_small:
  assumes a: "unat (x :: 32 word) < 2 ^ 31" shows "sint x = uint x"
proof -
  have "uint x < 2 ^ 31" using a by (rule uint_small)
  moreover have "- (2 ^ 31) \<le> uint x"
    by (rule order_trans[of _ 0]) simp_all
  ultimately have "signed_take_bit 31 (uint x) = uint x"
    by (intro signed_take_bit_int_eq_self)
  then show ?thesis by (simp add: sint_uint)
qed

lemma sram_reserve_cmp_small:
  assumes "unat (start ra) < 2 ^ 31" and "unat (start rb) < 2 ^ 31"
  shows "sram_reserve_cmp ra rb = int (unat (start ra)) - int (unat (start rb))"
proof -
  have b: "uint (start ra) < 2 ^ 31" "uint (start rb) < 2 ^ 31"
    by (rule uint_small[OF assms(1)], rule uint_small[OF assms(2)])
  have c: "0 \<le> uint (start ra)" "0 \<le> uint (start rb)" by simp_all
  have s: "sint (start ra) = uint (start ra)" "sint (start rb) = uint (start rb)"
    by (rule sint_small[OF assms(1)], rule sint_small[OF assms(2)])
  have "sint (start ra - start rb) = signed_take_bit 31 (uint (start ra) - uint (start rb))"
    by (simp add: sint_word_diff s)
  also have "\<dots> = uint (start ra) - uint (start rb)"
    using b c by (intro signed_take_bit_int_eq_self) linarith+
  finally show ?thesis by (simp add: sram_reserve_cmp_def)
qed

lemma unat_u32_less: "unat (x :: 32 word) < 2 ^ 32"
  using unsigned_less[of x] by simp

lemma unat_widen: "unat (ucast (x :: 32 word) :: 64 word) = unat x"
  using unat_u32_less[of x] by (simp add: unsigned_ucast_eq take_bit_nat_eq_self)

lemma unat_narrow: "unat (x :: 64 word) < 2 ^ 32 \<Longrightarrow> unat (ucast x :: 32 word) = unat x"
  by (simp add: unsigned_ucast_eq take_bit_nat_eq_self)

lemma widen_less: "((ucast (x :: 32 word) :: 64 word) < c) = (unat x < unat c)"
  by (simp add: word_less_nat_alt unat_widen)

lemma widen_eq: "((ucast (x :: 32 word) :: 64 word) = c) = (unat x = unat c)"
  by (simp add: word_unat_eq_iff unat_widen)

lemma unat_block_end:
  "unat (start b) + unat (size_r b) < 2 ^ 32 \<Longrightarrow>
   unat (ucast (start b + size_r b) :: 64 word) = unat (start b) + unat (size_r b)"
  using unat_add_lem[of "start b" "size_r b"] by (simp add: unat_widen)

lemma gap_size: "unat c \<le> unat (x :: 32 word) \<Longrightarrow> (ucast x :: 64 word) - c = of_nat (unat x - unat c)"
proof -
  assume a: "unat c \<le> unat x"
  have "(of_nat (unat x - unat c) :: 64 word) = of_nat (unat x) - of_nat (unat c)"
    using a by (rule of_nat_diff)
  also have "\<dots> = ucast x - c" by simp
  finally show ?thesis by (rule sym)
qed

subsection \<open>The Gap Resolver on unbounded numbers\<close>

lemma cover_count_Cons [simp]:
  "cover_count (b # bs) x = (if covers b x then 1 else 0) + cover_count bs x"
  by (simp add: cover_count_def)

lemma cover_count_Nil [simp]: "cover_count [] x = 0"
  by (simp add: cover_count_def)

lemma final_cursor_le:
  "\<forall>b\<in>set bs. fst b + snd b \<le> N \<Longrightarrow> c \<le> N \<Longrightarrow> final_cursor bs c \<le> N"
  by (induction bs arbitrary: c) auto

lemma gap_resolver_bounds:
  "gap_resolver bs c = Some sp \<Longrightarrow>
     c \<le> final_cursor bs c \<and> (\<forall>b\<in>set bs. fst b + snd b \<le> final_cursor bs c)"
proof (induction bs arbitrary: c sp)
  case Nil
  then show ?case by simp
next
  case (Cons b bs)
  from Cons.prems obtain sp' where r: "gap_resolver bs (fst b + snd b) = Some sp'" and ge: "c \<le> fst b"
    by (auto split: if_splits)
  from Cons.IH[OF r] ge show ?case by auto
qed

lemma gap_resolver_count:
  "gap_resolver bs c = Some sp \<Longrightarrow>
     cover_count bs x + cover_count sp x = (if c \<le> x \<and> x < final_cursor bs c then 1 else 0)"
proof (induction bs arbitrary: c sp)
  case Nil
  then show ?case by auto
next
  case (Cons b bs)
  let ?e = "fst b + snd b"
  show ?case
  proof (cases "fst b = c")
    case True
    then have r: "gap_resolver bs ?e = Some sp" using Cons.prems by simp
    from gap_resolver_bounds[OF r] have "?e \<le> final_cursor bs ?e" by simp
    with Cons.IH[OF r] True show ?thesis by (auto simp: covers_def)
  next
    case False
    with Cons.prems obtain sp' where r: "gap_resolver bs ?e = Some sp'"
      and sp: "sp = (c, fst b - c) # sp'" and ge: "c < fst b"
      by (auto split: if_splits)
    from gap_resolver_bounds[OF r] have "?e \<le> final_cursor bs ?e" by simp
    with Cons.IH[OF r] sp ge show ?thesis by (auto simp: covers_def)
  qed
qed

lemma gap_resolver_spans:
  "gap_resolver bs c = Some sp \<Longrightarrow>
     (\<forall>s\<in>set sp. c \<le> fst s \<and> 0 < snd s \<and> fst s + snd s \<le> final_cursor bs c) \<and>
     sorted_wrt (\<lambda>s t. fst s + snd s \<le> fst t) sp"
proof (induction bs arbitrary: c sp)
  case Nil
  then show ?case by auto
next
  case (Cons b bs)
  let ?e = "fst b + snd b"
  show ?case
  proof (cases "fst b = c")
    case True
    then have r: "gap_resolver bs ?e = Some sp" using Cons.prems by simp
    from Cons.IH[OF r] True show ?thesis by fastforce
  next
    case False
    with Cons.prems obtain sp' where r: "gap_resolver bs ?e = Some sp'"
      and sp: "sp = (c, fst b - c) # sp'" and ge: "c < fst b"
      by (auto split: if_splits)
    from gap_resolver_bounds[OF r] have "?e \<le> final_cursor bs ?e" by simp
    with Cons.IH[OF r] sp ge show ?thesis by fastforce
  qed
qed

lemma gap_resolver_cursors:
  "gap_resolver bs c = Some sp \<Longrightarrow>
     sorted (cursors bs c) \<and> (\<forall>y\<in>set (cursors bs c). c \<le> y \<and> y \<le> final_cursor bs c)"
proof (induction bs arbitrary: c sp)
  case Nil
  then show ?case by auto
next
  case (Cons b bs)
  from Cons.prems obtain sp' where r: "gap_resolver bs (fst b + snd b) = Some sp'" and ge: "c \<le> fst b"
    by (auto split: if_splits)
  from gap_resolver_bounds[OF r] have "fst b + snd b \<le> final_cursor bs (fst b + snd b)" by simp
  with Cons.IH[OF r] ge show ?case by fastforce
qed

subsection \<open>The second loop computes the Gap Resolver\<close>

lemma block_interval_sel [simp]:
  "fst (block_interval b) = unat (start b)" "snd (block_interval b) = unat (size_r b)"
  by (simp_all add: block_interval_def)

lemma scan_blocks_accept:
  assumes "\<forall>b\<in>set bs. unat (start b) + unat (size_r b) < 2 ^ 32"
    and "scan_blocks alloc vb res bs cur p = (None, p')"
  shows "\<exists>sp. gap_resolver (map block_interval bs) (unat cur) = Some sp \<and>
              p' = p @ map (span_chunk vb res) sp"
  using assms
proof (induction bs arbitrary: cur p)
  case Nil
  then show ?case by simp
next
  case (Cons b bs)
  have nw: "unat (start b) + unat (size_r b) < 2 ^ 32" using Cons.prems(1) by simp
  have rest: "\<forall>b\<in>set bs. unat (start b) + unat (size_r b) < 2 ^ 32" using Cons.prems(1) by simp
  have e: "unat (ucast (start b + size_r b) :: 64 word) = unat (start b) + unat (size_r b)"
    by (rule unat_block_end[OF nw])
  have ge: "\<not> unat (start b) < unat cur"
    using Cons.prems(2) by (auto simp: widen_less split: if_splits)
  show ?case
  proof (cases "unat (start b) = unat cur")
    case True
    then have "scan_blocks alloc vb res bs (ucast (start b + size_r b)) p = (None, p')"
      using Cons.prems(2) ge by (simp add: widen_less widen_eq)
    from Cons.IH[OF rest this] True show ?thesis
      by (simp add: e)
  next
    case False
    let ?c = "\<lparr>virt = vb + cur, phys = res_start res + cur, csize = ucast (start b) - cur,
                avail = ucast (start b) - cur\<rparr>"
    have ok: "alloc p ?c"
      using Cons.prems(2) ge False
      by (auto simp: widen_less widen_eq gen_pool_add_virt_def Let_def ENOMEM_def split: if_splits)
    then have "scan_blocks alloc vb res bs (ucast (start b + size_r b)) (p @ [?c]) = (None, p')"
      using Cons.prems(2) ge False
      by (simp add: widen_less widen_eq gen_pool_add_virt_def Let_def)
    from Cons.IH[OF rest this] obtain sp where
      sp: "gap_resolver (map block_interval bs) (unat (start b) + unat (size_r b)) = Some sp"
        "p' = (p @ [?c]) @ map (span_chunk vb res) sp"
      by (auto simp: e)
    have "unat cur \<le> unat (start b)" using ge by simp
    from gap_size[OF this] have c: "?c = span_chunk vb res (unat cur, unat (start b) - unat cur)"
      by (simp add: span_chunk_def)
    show ?thesis using sp ge False by (simp add: c)
  qed
qed

subsection \<open>Children and their blocks\<close>

lemma unat_of_nat_64: "n < 2 ^ 32 \<Longrightarrow> unat (of_nat n :: 64 word) = n"
  by (simp add: unat_of_nat take_bit_nat_eq_self)

lemma resource_size_of_nat:
  assumes "well_formed c"
  shows "resource_size c = of_nat (region_size c)"
proof -
  have le: "unat (res_start c) \<le> unat (res_end c) + 1"
    using assms by (simp add: well_formed_def)
  have "(of_nat (unat (res_end c) + 1 - unat (res_start c)) :: 64 word)
          = of_nat (unat (res_end c) + 1) - of_nat (unat (res_start c))"
    using le by (rule of_nat_diff)
  also have "\<dots> = res_end c - res_start c + 1" by simp
  finally show ?thesis by (simp add: resource_size_def region_size_def)
qed

lemma unat_resource_size:
  "well_formed c \<Longrightarrow> region_size c < 2 ^ 32 \<Longrightarrow> unat (resource_size c) = region_size c"
  by (simp add: resource_size_of_nat unat_of_nat_64)

lemma region_below_wf: "region_below n res \<Longrightarrow> well_formed res"
  by (simp add: region_below_def well_formed_def)

lemma outside_iff:
  "outside res c = (unat (res_start c) < unat (res_start res) \<or> unat (res_end res) < unat (res_end c))"
  by (simp add: outside_def word_less_nat_alt)

lemma out_of_bounds_outside:
  assumes "well_formed c" and "out_of_bounds res c"
  shows "outside res c"
  using assms
  by (auto simp: out_of_bounds_def outside_iff reserved_interval_def region_size_def well_formed_def)

lemma outside_out_of_bounds:
  assumes "well_formed c" and "unat (res_start res) \<le> unat (res_end res)" and "outside res c"
  shows "out_of_bounds res c"
  using assms
  by (auto simp: out_of_bounds_def outside_iff reserved_interval_def region_size_def well_formed_def)

lemma inside_size_le:
  assumes "well_formed c" and "\<not> outside res c"
  shows "unat (res_start c) - unat (res_start res) + region_size c \<le> region_size res"
  using assms by (auto simp: outside_iff region_size_def well_formed_def)

lemma child_block_interval:
  assumes r: "region_below (2 ^ 32) res" and wf: "well_formed c" and ins: "\<not> outside res c"
  shows "block_interval (child_block res c) = reserved_interval res c"
proof -
  have b: "unat (res_start c) - unat (res_start res) + region_size c \<le> region_size res"
    by (rule inside_size_le[OF wf ins])
  have lt: "region_size res < 2 ^ 32" using r by (simp add: region_below_def)
  have "res_start res \<le> res_start c" using ins by (auto simp: outside_def)
  then have s: "unat (res_start c - res_start res) = unat (res_start c) - unat (res_start res)"
    by (rule unat_sub)
  have "unat (res_start c - res_start res) < 2 ^ 32" using s b lt by simp
  then have 1: "unat (ucast (res_start c - res_start res) :: 32 word)
                  = unat (res_start c) - unat (res_start res)"
    using s by (simp add: unat_narrow)
  have "region_size c < 2 ^ 32" using b lt by simp
  then have z: "unat (resource_size c) = region_size c"
    by (rule unat_resource_size[OF wf])
  have "unat (resource_size c) < 2 ^ 32" using z b lt by simp
  then have 2: "unat (ucast (resource_size c) :: 32 word) = region_size c"
    using z by (simp add: unat_narrow)
  show ?thesis
    by (simp add: block_interval_def child_block_def reserved_interval_def 1 2)
qed

lemma end_block_interval:
  assumes r: "region_below (2 ^ 32) res"
  shows "block_interval (end_block res) = (region_size res, 0)"
proof -
  have lt: "region_size res < 2 ^ 32" using r by (simp add: region_below_def)
  have z: "unat (resource_size res) = region_size res"
    by (rule unat_resource_size[OF region_below_wf[OF r] lt])
  have "unat (resource_size res) < 2 ^ 32" using z lt by simp
  then have "unat (ucast (resource_size res) :: 32 word) = region_size res"
    using z by (simp add: unat_narrow)
  then show ?thesis by (simp add: block_interval_def end_block_def)
qed

lemma read_children_outside:
  "\<exists>c\<in>set cs. outside res c \<Longrightarrow> read_children res (resolved cs) = Inl OutOfBounds"
proof (induction cs)
  case Nil
  then show ?case by simp
next
  case (Cons a cs)
  show ?case
  proof (cases "outside res a")
    case True
    then show ?thesis by (simp add: resolved_def)
  next
    case False
    with Cons.prems have "\<exists>c\<in>set cs. outside res c" by auto
    from Cons.IH[OF this] False show ?thesis by (simp add: resolved_def)
  qed
qed

lemma read_children_inside:
  "\<forall>c\<in>set cs. \<not> outside res c \<Longrightarrow>
     read_children res (resolved cs) = Inr (map (child_block res) cs)"
  by (induction cs) (auto simp: resolved_def)

lemma read_children_cases:
  "read_children res (resolved cs) =
     (if \<exists>c\<in>set cs. outside res c then Inl OutOfBounds else Inr (map (child_block res) cs))"
  by (simp add: read_children_outside read_children_inside)

subsection \<open>Sorting keeps the blocks\<close>

lemma mset_list_insert [simp]: "mset (list_insert cmp x ys) = add_mset x (mset ys)"
  by (induction ys) auto

lemma mset_list_sort [simp]: "mset (list_sort cmp xs) = mset xs"
  by (induction xs) (auto simp: list_sort_def)

lemma set_list_sort [simp]: "set (list_sort cmp xs) = set xs"
  by (rule mset_eq_setD) simp

lemma cover_count_mset:
  "mset xs = mset ys \<Longrightarrow> cover_count xs x = cover_count ys x"
  unfolding cover_count_def by (metis mset_filter size_mset)

lemma cover_count_append [simp]:
  "cover_count (xs @ ys) x = cover_count xs x + cover_count ys x"
  by (simp add: cover_count_def)

subsection \<open>Accepted runs\<close>

lemma no_wrap_blocks:
  assumes r: "region_below (2 ^ 32) res"
    and wf: "\<forall>c\<in>set cs. well_formed c" and ins: "\<forall>c\<in>set cs. \<not> outside res c"
  shows "\<forall>b\<in>set (map (child_block res) cs @ [end_block res]).
           fst (block_interval b) + snd (block_interval b) \<le> region_size res"
proof
  fix b assume "b \<in> set (map (child_block res) cs @ [end_block res])"
  then consider c where "c \<in> set cs" "b = child_block res c" | "b = end_block res" by auto
  then show "fst (block_interval b) + snd (block_interval b) \<le> region_size res"
  proof cases
    case 1
    then have "block_interval b = reserved_interval res c"
      using child_block_interval[OF r] wf ins by simp
    then show ?thesis using inside_size_le[of c res] wf ins 1
      by (simp add: reserved_interval_def)
  next
    case 2
    then show ?thesis by (simp add: end_block_interval[OF r] del: block_interval_sel)
  qed
qed

text \<open>What an accepted run of the function has done.\<close>

lemma accepted_run:
  assumes r: "region_below (2 ^ 32) res"
    and wf: "\<forall>c\<in>set cs. well_formed c"
    and nodes: "of_node sram = resolved cs"
    and acc: "sram_reserve_regions alloc km sram res = (None, sram')"
  shows "\<exists>sp. gap_resolver (map block_interval
                 (list_sort sram_reserve_cmp (map (child_block res) cs @ [end_block res]))) 0 = Some sp \<and>
              pool sram' = pool sram @ map (span_chunk (virt_base sram) res) sp \<and>
              (\<forall>c\<in>set cs. \<not> outside res c)"
proof -
  let ?bs = "map (child_block res) cs @ [end_block res]"
  let ?sorted = "list_sort sram_reserve_cmp ?bs"
  have ins: "\<forall>c\<in>set cs. \<not> outside res c"
  proof (rule ccontr)
    assume "\<not> ?thesis"
    then have "read_children res (resolved cs) = Inl OutOfBounds"
      by (intro read_children_outside) simp
    with acc nodes show False
      by (simp add: sram_reserve_regions_def split: if_splits)
  qed
  then have rc: "read_children res (of_node sram) = Inr (map (child_block res) cs)"
    using nodes by (simp add: read_children_inside)
  have sc: "scan_blocks alloc (virt_base sram) res ?sorted 0 (pool sram) = (None, pool sram')"
    using acc rc by (auto simp: sram_reserve_regions_def Let_def prod_eq_iff split: if_splits)
  have lt: "region_size res < 2 ^ 32" using r by (simp add: region_below_def)
  have "\<forall>b\<in>set ?sorted. unat (start b) + unat (size_r b) < 2 ^ 32"
    using no_wrap_blocks[OF r wf ins] lt by (simp del: set_append) (meson le_less_trans)
  from scan_blocks_accept[OF this sc] ins show ?thesis by auto
qed

lemma accepted_final_cursor:
  assumes r: "region_below (2 ^ 32) res"
    and wf: "\<forall>c\<in>set cs. well_formed c" and ins: "\<forall>c\<in>set cs. \<not> outside res c"
    and g: "gap_resolver (map block_interval
              (list_sort sram_reserve_cmp (map (child_block res) cs @ [end_block res]))) 0 = Some sp"
  shows "final_cursor (map block_interval
           (list_sort sram_reserve_cmp (map (child_block res) cs @ [end_block res]))) 0 = region_size res"
proof -
  let ?bs = "map (child_block res) cs @ [end_block res]"
  let ?iv = "map block_interval (list_sort sram_reserve_cmp ?bs)"
  have a: "\<forall>i\<in>set ?iv. fst i + snd i \<le> region_size res"
    using no_wrap_blocks[OF r wf ins] by (simp del: set_append block_interval_sel)
  have le: "final_cursor ?iv 0 \<le> region_size res"
    by (rule final_cursor_le[OF a]) simp
  have "block_interval (end_block res) \<in> set ?iv" by simp
  with gap_resolver_bounds[OF g]
  have "fst (block_interval (end_block res)) + snd (block_interval (end_block res)) \<le> final_cursor ?iv 0"
    by blast
  then have "region_size res \<le> final_cursor ?iv 0"
    by (simp add: end_block_interval[OF r] del: block_interval_sel)
  with le show ?thesis by simp
qed

lemma reserved_cover_count:
  assumes r: "region_below (2 ^ 32) res"
    and wf: "\<forall>c\<in>set cs. well_formed c" and ins: "\<forall>c\<in>set cs. \<not> outside res c"
  shows "cover_count (map block_interval
           (list_sort sram_reserve_cmp (map (child_block res) cs @ [end_block res]))) x
         = cover_count (map (reserved_interval res) cs) x"
proof -
  let ?bs = "map (child_block res) cs @ [end_block res]"
  have "mset (list_sort sram_reserve_cmp ?bs) = mset ?bs"
    by (rule mset_list_sort)
  then have "mset (map block_interval (list_sort sram_reserve_cmp ?bs)) = mset (map block_interval ?bs)"
    by (simp only: mset_map)
  then have "cover_count (map block_interval (list_sort sram_reserve_cmp ?bs)) x
               = cover_count (map block_interval ?bs) x"
    by (rule cover_count_mset)
  also have "map block_interval ?bs = map (reserved_interval res) cs @ [(region_size res, 0)]"
    using child_block_interval[OF r] wf ins by (simp add: end_block_interval[OF r])
  also have "cover_count \<dots> x = cover_count (map (reserved_interval res) cs) x"
    by (simp add: covers_def)
  finally show ?thesis .
qed

lemma accepted_cover:
  assumes r: "region_below (2 ^ 32) res"
    and wf: "\<forall>c\<in>set cs. well_formed c"
    and nodes: "of_node sram = resolved cs"
    and acc: "sram_reserve_regions alloc km sram res = (None, sram')"
  shows "\<exists>sp. pool sram' = pool sram @ map (span_chunk (virt_base sram) res) sp \<and>
              (\<forall>x. cover_count (map (reserved_interval res) cs) x + cover_count sp x
                     = (if x < region_size res then 1 else 0))"
proof -
  from accepted_run[OF r wf nodes acc] obtain sp where
    g: "gap_resolver (map block_interval
          (list_sort sram_reserve_cmp (map (child_block res) cs @ [end_block res]))) 0 = Some sp"
    and p: "pool sram' = pool sram @ map (span_chunk (virt_base sram) res) sp"
    and ins: "\<forall>c\<in>set cs. \<not> outside res c"
    by blast
  have "cover_count (map (reserved_interval res) cs) x + cover_count sp x
          = (if x < region_size res then 1 else 0)" for x
    using gap_resolver_count[OF g, of x]
    by (simp add: accepted_final_cursor[OF r wf ins g] reserved_cover_count[OF r wf ins])
  with p show ?thesis by blast
qed

subsection \<open>Errors of a run\<close>

lemma scan_never_rejects:
  "fst (scan_blocks never_rejects vb res bs cur p) = None \<or>
   fst (scan_blocks never_rejects vb res bs cur p) = Some OverlapDetected"
  by (induction bs arbitrary: cur p)
     (simp_all add: gen_pool_add_virt_def never_rejects_def Let_def)

lemma run_never_rejects:
  assumes "\<forall>c\<in>set cs. \<not> outside res c" and "of_node sram = resolved cs"
  shows "fst (sram_reserve_regions never_rejects True sram res) = None \<or>
         fst (sram_reserve_regions never_rejects True sram res) = Some OverlapDetected"
  using assms scan_never_rejects
  by (simp add: sram_reserve_regions_def read_children_inside Let_def)

lemma cover_count_two:
  assumes "{#a, b#} \<subseteq># mset cs" and "covers (f a) x" and "covers (f b) x"
  shows "2 \<le> cover_count (map f cs) x"
proof -
  have "image_mset f {#a, b#} \<subseteq># image_mset f (mset cs)"
    using assms(1) by (rule image_mset_subseteq_mono)
  then have "filter_mset (\<lambda>i. covers i x) (image_mset f {#a, b#})
               \<subseteq># filter_mset (\<lambda>i. covers i x) (image_mset f (mset cs))"
    by (rule multiset_filter_mono)
  then have "size (filter_mset (\<lambda>i. covers i x) (image_mset f {#a, b#}))
               \<le> size (filter_mset (\<lambda>i. covers i x) (image_mset f (mset cs)))"
    by (rule size_mset_mono)
  moreover have "size (filter_mset (\<lambda>i. covers i x) (image_mset f {#a, b#})) = 2"
    using assms(2,3) by simp
  moreover have "size (filter_mset (\<lambda>i. covers i x) (image_mset f (mset cs))) = cover_count (map f cs) x"
    unfolding cover_count_def by (metis mset_filter mset_map size_mset)
  ultimately show ?thesis by simp
qed

lemma probe_reserve:
  "sram_probe \<lparr>kzalloc_ok = True, mem_resource = Some res, request_mem_region_ok = True,
      ioremap_wc = Inr vb, gen_pool_create_err = None, np = nodes, rblocks_ok = km,
      chunk_ok = alloc, clk_get_ok = ck\<rparr>
   = (case fst (sram_reserve_regions alloc km
                  \<lparr>of_node = nodes, virt_base = vb, pool = [], clk = None\<rparr> res) of
        Some e \<Rightarrow> Inl e
      | None \<Rightarrow> Inr ((snd (sram_reserve_regions alloc km
                  \<lparr>of_node = nodes, virt_base = vb, pool = [], clk = None\<rparr> res))
                  \<lparr>clk := if ck then Some True else None\<rparr>))"
  by (simp add: sram_probe_def Let_def)

lemma overlap_run:
  assumes r: "region_below (2 ^ 32) res"
    and wf: "\<forall>c\<in>set cs. well_formed c \<and> \<not> out_of_bounds res c"
    and ab: "{#a, b#} \<subseteq># mset cs"
    and xa: "covers (reserved_interval res a) x" and xb: "covers (reserved_interval res b) x"
    and nodes: "of_node sram = resolved cs"
  shows "fst (sram_reserve_regions never_rejects True sram res) = Some OverlapDetected"
proof -
  have w: "\<forall>c\<in>set cs. well_formed c" using wf by simp
  have le: "unat (res_start res) \<le> unat (res_end res)" using r by (simp add: region_below_def)
  have ins: "\<forall>c\<in>set cs. \<not> outside res c"
    using wf outside_out_of_bounds[OF _ le] by blast
  have two: "2 \<le> cover_count (map (reserved_interval res) cs) x"
    by (rule cover_count_two[OF ab xa xb])
  have "fst (sram_reserve_regions never_rejects True sram res) \<noteq> None"
  proof
    assume "fst (sram_reserve_regions never_rejects True sram res) = None"
    then have "sram_reserve_regions never_rejects True sram res
                 = (None, snd (sram_reserve_regions never_rejects True sram res))"
      by (simp add: prod_eq_iff)
    from accepted_cover[OF r w nodes this] obtain sp where
      "cover_count (map (reserved_interval res) cs) x + cover_count sp x
         = (if x < region_size res then 1 else 0)"
      by blast
    with two show False by (simp split: if_splits)
  qed
  with run_never_rejects[OF ins nodes] show ?thesis by blast
qed

lemma narrow_widen:
  assumes "unat (x :: 64 word) < 2 ^ 32"
  shows "(ucast (ucast x :: 32 word) :: 64 word) = x"
  using assms by (simp add: word_unat_eq_iff unat_widen unat_narrow)

subsection \<open>Sorting where the comparator is sound\<close>

lemma cmp_le_iff:
  assumes "unat (start x) < 2 ^ 31" and "unat (start y) < 2 ^ 31"
  shows "(sram_reserve_cmp x y \<le> 0) = (start x \<le> start y)"
  by (simp add: sram_reserve_cmp_small[OF assms] word_le_def)

lemma list_insert_small:
  assumes "unat (start x) < 2 ^ 31" and "\<forall>y\<in>set ys. unat (start y) < 2 ^ 31"
  shows "list_insert sram_reserve_cmp x ys = insort_key start x ys"
  using assms(2)
proof (induction ys)
  case Nil
  then show ?case by simp
next
  case (Cons y ys)
  then have "unat (start y) < 2 ^ 31" by simp
  from cmp_le_iff[OF assms(1) this] Cons show ?case by simp
qed

lemma list_sort_small:
  "\<forall>x\<in>set xs. unat (start x) < 2 ^ 31 \<Longrightarrow> list_sort sram_reserve_cmp xs = sort_key start xs"
proof (induction xs)
  case Nil
  then show ?case by (simp add: list_sort_def)
next
  case (Cons x xs)
  then have ih: "list_sort sram_reserve_cmp xs = sort_key start xs" by simp
  have "\<forall>y\<in>set (sort_key start xs). unat (start y) < 2 ^ 31" using Cons.prems by simp
  with Cons.prems have "list_insert sram_reserve_cmp x (sort_key start xs)
                          = insort_key start x (sort_key start xs)"
    by (intro list_insert_small) simp_all
  with ih show ?case by (simp add: list_sort_def)
qed

lemma insort_key_snoc:
  "f x \<le> f s \<Longrightarrow> insort_key f x (ys @ [s]) = insort_key f x ys @ [s]"
  by (induction ys) auto

lemma sort_key_snoc:
  "\<forall>x\<in>set xs. f x \<le> f s \<Longrightarrow> sort_key f (xs @ [s]) = sort_key f xs @ [s]"
  by (induction xs) (auto simp: insort_key_snoc)

lemma block_interval_inj: "block_interval a = block_interval b \<Longrightarrow> a = b"
  by (cases a, cases b) (simp add: block_interval_def word_unat_eq_iff)

lemma small_blocks:
  assumes r: "region_below (2 ^ 31) res"
    and wf: "\<forall>c\<in>set cs. well_formed c" and ins: "\<forall>c\<in>set cs. \<not> outside res c"
  shows "\<forall>b\<in>set (map (child_block res) cs @ [end_block res]). unat (start b) < 2 ^ 31"
proof -
  have r32: "region_below (2 ^ 32) res" using r by (simp add: region_below_def)
  have lt: "region_size res < 2 ^ 31" using r by (simp add: region_below_def)
  show ?thesis
    using no_wrap_blocks[OF r32 wf ins] lt by (simp del: set_append) (meson add_leD1 le_less_trans)
qed

lemma end_block_last:
  assumes r: "region_below (2 ^ 31) res"
    and wf: "\<forall>c\<in>set cs. well_formed c" and ins: "\<forall>c\<in>set cs. \<not> outside res c"
  shows "list_sort sram_reserve_cmp (map (child_block res) cs @ [end_block res])
           = list_sort sram_reserve_cmp (map (child_block res) cs) @ [end_block res]"
proof -
  have r32: "region_below (2 ^ 32) res" using r by (simp add: region_below_def)
  have sm: "\<forall>b\<in>set (map (child_block res) cs @ [end_block res]). unat (start b) < 2 ^ 31"
    by (rule small_blocks[OF r wf ins])
  then have sm': "\<forall>b\<in>set (map (child_block res) cs). unat (start b) < 2 ^ 31" by simp
  have e: "unat (start (end_block res)) = region_size res"
    using end_block_interval[OF r32] by (simp add: block_interval_def)
  have "\<forall>b\<in>set (map (child_block res) cs). start b \<le> start (end_block res)"
    using no_wrap_blocks[OF r32 wf ins] by (simp add: word_le_nat_alt e) (meson add_leD1)
  then have "sort_key start (map (child_block res) cs @ [end_block res])
               = sort_key start (map (child_block res) cs) @ [end_block res]"
    by (rule sort_key_snoc)
  then show ?thesis by (simp only: list_sort_small[OF sm] list_sort_small[OF sm'])
qed

subsection \<open>The cursor of an accepted run\<close>

lemma cursor_trace_cursors:
  "\<forall>b\<in>set bs. unat (start b) + unat (size_r b) < 2 ^ 32 \<Longrightarrow>
     map unat (cursor_trace bs cur) = cursors (map block_interval bs) (unat cur)"
  by (induction bs arbitrary: cur) (simp_all add: unat_block_end)

subsection \<open>Permuted children\<close>

lemma start_inj:
  assumes r: "region_below (2 ^ 32) res"
    and wf: "\<forall>c\<in>set cs. well_formed c" and ins: "\<forall>c\<in>set cs. \<not> outside res c"
    and inj: "inj_on res_start (set cs)"
  shows "inj_on start (set (map (child_block res) cs @ [end_block res]))"
proof (rule inj_onI)
  fix a b
  assume a: "a \<in> set (map (child_block res) cs @ [end_block res])"
    and b: "b \<in> set (map (child_block res) cs @ [end_block res])"
    and eq: "start a = start b"
  have bound: "\<And>x. x \<in> set (map (child_block res) cs @ [end_block res]) \<Longrightarrow>
                  unat (start x) + unat (size_r x) \<le> region_size res"
    using no_wrap_blocks[OF r wf ins] by (simp only: block_interval_sel)
  have e: "block_interval (end_block res) = (region_size res, 0)"
    by (rule end_block_interval[OF r])
  have child: "\<And>c. c \<in> set cs \<Longrightarrow> block_interval (child_block res c) = reserved_interval res c"
    using child_block_interval[OF r] wf ins by simp
  have at_end: "x = end_block res"
    if "x \<in> set (map (child_block res) cs @ [end_block res])"
      and "unat (start x) = region_size res" for x
  proof (rule block_interval_inj)
    from bound[OF that(1)] that(2) have "unat (size_r x) = 0" by simp
    with that(2) e show "block_interval x = block_interval (end_block res)"
      by (simp add: block_interval_def)
  qed
  consider (e1) "a = end_block res" | (e2) "b = end_block res"
    | (cc) ca cb where "ca \<in> set cs" "cb \<in> set cs" "a = child_block res ca" "b = child_block res cb"
    using a b by auto
  then show "a = b"
  proof cases
    case e1
    then have "unat (start b) = region_size res"
      using eq e by (simp add: block_interval_def)
    from at_end[OF b this] e1 show ?thesis by simp
  next
    case e2
    then have "unat (start a) = region_size res"
      using eq e by (simp add: block_interval_def)
    from at_end[OF a this] e2 show ?thesis by simp
  next
    case cc
    have ia: "\<not> outside res ca" and ib: "\<not> outside res cb" using ins cc by auto
    have "fst (block_interval a) = fst (block_interval b)" using eq by simp
    then have "unat (res_start ca) - unat (res_start res) = unat (res_start cb) - unat (res_start res)"
      using child cc by (simp add: reserved_interval_def del: block_interval_sel)
    then have "unat (res_start ca) = unat (res_start cb)"
      using ia ib unfolding outside_iff by arith
    then have "res_start ca = res_start cb" by (simp add: word_unat_eq_iff)
    with inj cc have "ca = cb" by (auto dest: inj_onD)
    with cc show ?thesis by simp
  qed
qed

lemma permuted_sorted:
  assumes r: "region_below (2 ^ 31) res"
    and wf: "\<forall>c\<in>set cs. well_formed c" and ins: "\<forall>c\<in>set cs. \<not> outside res c"
    and inj: "inj_on res_start (set cs)"
    and perm: "mset cs' = mset cs"
  shows "list_sort sram_reserve_cmp (map (child_block res) cs' @ [end_block res])
           = list_sort sram_reserve_cmp (map (child_block res) cs @ [end_block res])"
proof -
  let ?xs = "map (child_block res) cs' @ [end_block res]"
  let ?ys = "map (child_block res) cs @ [end_block res]"
  have r32: "region_below (2 ^ 32) res" using r by (simp add: region_below_def)
  have st: "set cs' = set cs" using perm by (rule mset_eq_setD)
  have wf': "\<forall>c\<in>set cs'. well_formed c" and ins': "\<forall>c\<in>set cs'. \<not> outside res c"
    and inj': "inj_on res_start (set cs')"
    using wf ins inj st by simp_all
  have m: "mset ?xs = mset (sort_key start ?ys)" using perm by simp
  have "sort_key start ?xs = sort_key start ?ys"
    by (rule sort_key_inj_key_eq[OF m start_inj[OF r32 wf' ins' inj']]) simp
  then show ?thesis
    by (simp only: list_sort_small[OF small_blocks[OF r wf ins]]
          list_sort_small[OF small_blocks[OF r wf' ins']])
qed

subsection \<open>One step of the second loop, on unbounded numbers\<close>

lemma span_chunk_gap:
  assumes "unat cur \<le> unat (start b)"
  shows "\<lparr>virt = vb + cur, phys = res_start res + cur, csize = ucast (start b) - cur,
          avail = ucast (start b) - cur\<rparr>
         = span_chunk vb res (unat cur, unat (start b) - unat cur)"
  using gap_size[OF assms] by (simp add: span_chunk_def)

lemma equal_step:
  assumes "unat (start b) = unat cur"
  shows "scan_blocks alloc vb res (b # bs) cur p
           = scan_blocks alloc vb res bs (ucast (start b + size_r b)) p"
  using assms by (simp add: widen_less widen_eq)

lemma gap_step:
  assumes lt: "unat cur < unat (start b)"
    and ok: "alloc p (span_chunk vb res (unat cur, unat (start b) - unat cur))"
  shows "scan_blocks alloc vb res (b # bs) cur p
           = scan_blocks alloc vb res bs (ucast (start b + size_r b))
               (p @ [span_chunk vb res (unat cur, unat (start b) - unat cur)])"
proof -
  have le: "unat cur \<le> unat (start b)" using lt by simp
  show ?thesis
    using lt ok
    by (simp add: widen_less widen_eq gen_pool_add_virt_def Let_def span_chunk_gap[OF le])
qed

lemma gap_step_rejected:
  assumes lt: "unat cur < unat (start b)"
    and no: "\<not> alloc p (span_chunk vb res (unat cur, unat (start b) - unat cur))"
  shows "scan_blocks alloc vb res (b # bs) cur p
           = (Some (AllocatorRegistrationFailed (- ENOMEM)), p)"
proof -
  have le: "unat cur \<le> unat (start b)" using lt by simp
  show ?thesis
    using lt no
    by (simp add: widen_less widen_eq gen_pool_add_virt_def Let_def span_chunk_gap[OF le] ENOMEM_def)
qed

subsection \<open>Scanning a list in two parts\<close>

lemma cursor_trace_ne [simp]: "cursor_trace bs cur \<noteq> []"
  by (cases bs) simp_all

lemma last_cursor_trace:
  "last (cursor_trace bs cur)
     = (if bs = [] then cur else ucast (start (last bs) + size_r (last bs)))"
  by (induction bs arbitrary: cur) auto

lemma scan_blocks_append:
  "scan_blocks alloc vb res (xs @ ys) cur p
     = (case fst (scan_blocks alloc vb res xs cur p) of
          Some e \<Rightarrow> scan_blocks alloc vb res xs cur p
        | None \<Rightarrow> scan_blocks alloc vb res ys (last (cursor_trace xs cur))
                    (snd (scan_blocks alloc vb res xs cur p)))"
proof (induction xs arbitrary: cur p)
  case Nil
  show ?case by simp
next
  case (Cons a xs)
  let ?e = "ucast (start a + size_r a) :: 64 word"
  let ?r = "gen_pool_add_virt alloc p (vb + cur) (res_start res + cur) (ucast (start a) - cur)"
  have tr: "last (cursor_trace (a # xs) cur) = last (cursor_trace xs ?e)" by simp
  consider (lt) "ucast (start a) < cur"
    | (eq) "\<not> ucast (start a) < cur" "ucast (start a) = cur"
    | (no) "\<not> ucast (start a) < cur" "ucast (start a) \<noteq> cur" "fst ?r < 0"
    | (ok) "\<not> ucast (start a) < cur" "ucast (start a) \<noteq> cur" "\<not> fst ?r < 0"
    by blast
  then show ?case
  proof cases
    case lt
    then have "scan_blocks alloc vb res ((a # xs) @ ys) cur p = (Some OverlapDetected, p)"
      and "scan_blocks alloc vb res (a # xs) cur p = (Some OverlapDetected, p)"
      by simp_all
    then show ?thesis by simp
  next
    case eq
    then have 1: "scan_blocks alloc vb res ((a # xs) @ ys) cur p
                    = scan_blocks alloc vb res (xs @ ys) ?e p"
      and 2: "scan_blocks alloc vb res (a # xs) cur p = scan_blocks alloc vb res xs ?e p"
      by simp_all
    show ?thesis unfolding 1 2 tr by (rule Cons.IH)
  next
    case no
    then have "scan_blocks alloc vb res ((a # xs) @ ys) cur p
                 = (Some (AllocatorRegistrationFailed (fst ?r)), snd ?r)"
      and "scan_blocks alloc vb res (a # xs) cur p
                 = (Some (AllocatorRegistrationFailed (fst ?r)), snd ?r)"
      by (simp_all add: Let_def)
    then show ?thesis by simp
  next
    case ok
    then have 1: "scan_blocks alloc vb res ((a # xs) @ ys) cur p
                    = scan_blocks alloc vb res (xs @ ys) ?e (snd ?r)"
      and 2: "scan_blocks alloc vb res (a # xs) cur p = scan_blocks alloc vb res xs ?e (snd ?r)"
      by (simp_all add: Let_def)
    show ?thesis unfolding 1 2 tr by (rule Cons.IH)
  qed
qed

subsection \<open>The end block closes the run\<close>

lemma end_block_tail:
  assumes r: "region_below (2 ^ 32) res" and le: "unat c \<le> region_size res"
  shows "scan_blocks alloc vb res [end_block res] c p
           = (if unat c = region_size res then (None, p)
              else if alloc p (span_chunk vb res (unat c, region_size res - unat c))
              then (None, p @ [span_chunk vb res (unat c, region_size res - unat c)])
              else (Some (AllocatorRegistrationFailed (- ENOMEM)), p))"
proof -
  have e: "unat (start (end_block res)) = region_size res"
    using end_block_interval[OF r] by (simp add: block_interval_def)
  show ?thesis
  proof (cases "unat c = region_size res")
    case True
    then have "unat (start (end_block res)) = unat c" using e by simp
    from equal_step[OF this, of alloc vb res "[]" p] True show ?thesis by simp
  next
    case False
    with le e have lt: "unat c < unat (start (end_block res))" by simp
    show ?thesis
    proof (cases "alloc p (span_chunk vb res (unat c, region_size res - unat c))")
      case True
      then have "alloc p (span_chunk vb res (unat c, unat (start (end_block res)) - unat c))"
        by (simp add: e)
      from gap_step[where alloc=alloc and p=p and vb=vb and res=res and bs="[]", OF lt this]
        True False show ?thesis by (simp add: e)
    next
      case no: False
      then have "\<not> alloc p (span_chunk vb res (unat c, unat (start (end_block res)) - unat c))"
        by (simp add: e)
      from gap_step_rejected[where alloc=alloc and p=p and vb=vb and res=res and bs="[]", OF lt this]
        no False show ?thesis by (simp add: e)
    qed
  qed
qed

lemma last_cursor_le:
  assumes r: "region_below (2 ^ 32) res"
    and wf: "\<forall>c\<in>set cs. well_formed c" and ins: "\<forall>c\<in>set cs. \<not> outside res c"
  shows "unat (last (cursor_trace (sorted_blocks res cs) 0)) \<le> region_size res"
proof (cases "sorted_blocks res cs = []")
  case True
  then show ?thesis by simp
next
  case False
  let ?b = "last (sorted_blocks res cs)"
  have "?b \<in> set (sorted_blocks res cs)" using False by simp
  then have "?b \<in> set (map (child_block res) cs @ [end_block res])"
    by (simp add: sorted_blocks_def)
  with no_wrap_blocks[OF r wf ins]
  have b: "unat (start ?b) + unat (size_r ?b) \<le> region_size res"
    by (simp only: block_interval_sel)
  have lt: "region_size res < 2 ^ 32" using r by (simp add: region_below_def)
  from b lt have "unat (start ?b) + unat (size_r ?b) < 2 ^ 32" by simp
  from unat_block_end[OF this] b False show ?thesis
    by (simp add: last_cursor_trace)
qed

lemma run_end_block_last:
  assumes r: "region_below (2 ^ 31) res"
    and wf: "\<forall>c\<in>set cs. well_formed c \<and> \<not> out_of_bounds res c"
    and nodes: "of_node sram = resolved cs"
  shows "block_interval (end_block res) = (region_size res, 0) \<and>
         list_sort sram_reserve_cmp (map (child_block res) cs @ [end_block res])
           = sorted_blocks res cs @ [end_block res] \<and>
         unat (last (cursor_trace (sorted_blocks res cs) 0)) \<le> region_size res \<and>
         sram_reserve_regions alloc True sram res
           = (case fst (scan_blocks alloc (virt_base sram) res (sorted_blocks res cs) 0 (pool sram)) of
                Some e \<Rightarrow>
                  (Some e, sram\<lparr>pool :=
                     snd (scan_blocks alloc (virt_base sram) res (sorted_blocks res cs) 0 (pool sram))\<rparr>)
              | None \<Rightarrow>
                  if unat (last (cursor_trace (sorted_blocks res cs) 0)) = region_size res
                  then (None, sram\<lparr>pool :=
                     snd (scan_blocks alloc (virt_base sram) res (sorted_blocks res cs) 0 (pool sram))\<rparr>)
                  else if alloc
                       (snd (scan_blocks alloc (virt_base sram) res (sorted_blocks res cs) 0 (pool sram)))
                       (span_chunk (virt_base sram) res
                          (unat (last (cursor_trace (sorted_blocks res cs) 0)),
                           region_size res - unat (last (cursor_trace (sorted_blocks res cs) 0))))
                  then (None, sram\<lparr>pool :=
                     snd (scan_blocks alloc (virt_base sram) res (sorted_blocks res cs) 0 (pool sram))
                     @ [span_chunk (virt_base sram) res
                          (unat (last (cursor_trace (sorted_blocks res cs) 0)),
                           region_size res - unat (last (cursor_trace (sorted_blocks res cs) 0)))]\<rparr>)
                  else (Some (AllocatorRegistrationFailed (- ENOMEM)), sram\<lparr>pool :=
                     snd (scan_blocks alloc (virt_base sram) res (sorted_blocks res cs) 0 (pool sram))\<rparr>))"
proof -
  let ?pre = "sorted_blocks res cs"
  let ?r = "scan_blocks alloc (virt_base sram) res ?pre 0 (pool sram)"
  let ?c = "last (cursor_trace ?pre 0)"
  have r32: "region_below (2 ^ 32) res" using r by (simp add: region_below_def)
  have le: "unat (res_start res) \<le> unat (res_end res)" using r by (simp add: region_below_def)
  have w: "\<forall>c\<in>set cs. well_formed c" using wf by simp
  have ins: "\<forall>c\<in>set cs. \<not> outside res c"
    using wf outside_out_of_bounds[OF _ le] by blast
  have 1: "block_interval (end_block res) = (region_size res, 0)"
    by (rule end_block_interval[OF r32])
  have 2: "list_sort sram_reserve_cmp (map (child_block res) cs @ [end_block res])
             = ?pre @ [end_block res]"
    unfolding sorted_blocks_def by (rule end_block_last[OF r w ins])
  have 3: "unat ?c \<le> region_size res"
    by (rule last_cursor_le[OF r32 w ins])
  have run: "sram_reserve_regions alloc True sram res
               = (fst (scan_blocks alloc (virt_base sram) res (?pre @ [end_block res]) 0 (pool sram)),
                  sram\<lparr>pool := snd (scan_blocks alloc (virt_base sram) res
                                        (?pre @ [end_block res]) 0 (pool sram))\<rparr>)"
    using nodes by (simp add: sram_reserve_regions_def read_children_inside[OF ins] 2 Let_def)
  have app: "scan_blocks alloc (virt_base sram) res (?pre @ [end_block res]) 0 (pool sram)
               = (case fst ?r of Some e \<Rightarrow> ?r
                  | None \<Rightarrow> scan_blocks alloc (virt_base sram) res [end_block res] ?c (snd ?r))"
    by (rule scan_blocks_append)
  have tail: "scan_blocks alloc (virt_base sram) res [end_block res] ?c (snd ?r)
           = (if unat ?c = region_size res then (None, snd ?r)
              else if alloc (snd ?r) (span_chunk (virt_base sram) res (unat ?c, region_size res - unat ?c))
              then (None, snd ?r @ [span_chunk (virt_base sram) res (unat ?c, region_size res - unat ?c)])
              else (Some (AllocatorRegistrationFailed (- ENOMEM)), snd ?r))"
    by (rule end_block_tail[OF r32 3])
  have 4: "sram_reserve_regions alloc True sram res
           = (case fst ?r of
                Some e \<Rightarrow> (Some e, sram\<lparr>pool := snd ?r\<rparr>)
              | None \<Rightarrow>
                  if unat ?c = region_size res then (None, sram\<lparr>pool := snd ?r\<rparr>)
                  else if alloc (snd ?r)
                       (span_chunk (virt_base sram) res (unat ?c, region_size res - unat ?c))
                  then (None, sram\<lparr>pool := snd ?r
                     @ [span_chunk (virt_base sram) res (unat ?c, region_size res - unat ?c)]\<rparr>)
                  else (Some (AllocatorRegistrationFailed (- ENOMEM)), sram\<lparr>pool := snd ?r\<rparr>))"
  proof (cases "fst ?r")
    case None
    have "scan_blocks alloc (virt_base sram) res (?pre @ [end_block res]) 0 (pool sram)
           = (if unat ?c = region_size res then (None, snd ?r)
              else if alloc (snd ?r) (span_chunk (virt_base sram) res (unat ?c, region_size res - unat ?c))
              then (None, snd ?r @ [span_chunk (virt_base sram) res (unat ?c, region_size res - unat ?c)])
              else (Some (AllocatorRegistrationFailed (- ENOMEM)), snd ?r))"
      unfolding app None option.case by (rule tail)
    then show ?thesis
      unfolding run None option.case by simp
  next
    case (Some e)
    have "scan_blocks alloc (virt_base sram) res (?pre @ [end_block res]) 0 (pool sram) = ?r"
      unfolding app Some option.case ..
    then show ?thesis
      using Some by (simp add: run)
  qed
  show ?thesis by (intro conjI 1 2 3 4)
qed

subsection \<open>Ranges outside the region\<close>

text \<open>A child that is a range and lies outside the region ends the run before the pool is touched.\<close>

lemma range_out_of_bounds_rejected:
  assumes c: "c \<in> set cs" and wf: "well_formed c" and oob: "out_of_bounds res c"
    and nodes: "of_node sram = resolved cs"
  shows "sram_reserve_regions alloc True sram res = (Some OutOfBounds, sram) \<and>
         sram_probe \<lparr>kzalloc_ok = True, mem_resource = Some res, request_mem_region_ok = True,
           ioremap_wc = Inr vb, gen_pool_create_err = None, np = resolved cs, rblocks_ok = True,
           chunk_ok = alloc, clk_get_ok = ck\<rparr> = Inl OutOfBounds"
proof -
  have "outside res c" by (rule out_of_bounds_outside[OF wf oob])
  with c have "\<exists>c\<in>set cs. outside res c" by blast
  then have rc: "read_children res (resolved cs) = Inl OutOfBounds"
    by (rule read_children_outside)
  have 1: "sram_reserve_regions alloc True sram res = (Some OutOfBounds, sram)"
    using rc nodes by (simp add: sram_reserve_regions_def)
  have 2: "sram_probe \<lparr>kzalloc_ok = True, mem_resource = Some res, request_mem_region_ok = True,
           ioremap_wc = Inr vb, gen_pool_create_err = None, np = resolved cs, rblocks_ok = True,
           chunk_ok = alloc, clk_get_ok = ck\<rparr> = Inl OutOfBounds"
    using rc by (simp add: probe_reserve sram_reserve_regions_def)
  from 1 2 show ?thesis by blast
qed

section \<open>The claims\<close>

text \<open>
  Throughout, \<open>resolved cs\<close> is a node all of whose children resolve to the resources
  \<open>cs\<close>, and a run is accepted when \<open>sram_reserve_regions\<close> returns no error.
\<close>

subsection \<open>C1\<close>

text \<open>
  C1, as it holds for the code: for a region smaller than \<open>2 ^ 32\<close> bytes and
  reservations that are ranges, an accepted run has added to the pool exactly the chunks
  of a list \<open>sp\<close> of free spans such that every offset below \<open>Region.size\<close> is covered
  by exactly one reserved interval or free span, and no other offset is covered at all.
\<close>

theorem accepted_partition:
  assumes r: "region_below (2 ^ 32) res"
    and wf: "\<forall>c\<in>set cs. well_formed c"
    and nodes: "of_node sram = resolved cs"
    and acc: "sram_reserve_regions alloc km sram res = (None, sram')"
  shows "\<exists>sp. pool sram' = pool sram @ map (span_chunk (virt_base sram) res) sp \<and>
              (\<forall>x. cover_count (map (reserved_interval res) cs) x + cover_count sp x
                     = (if x < region_size res then 1 else 0))"
  using accepted_cover[OF assms] .

theorem accepted_partition_witness:
  "region_below (2 ^ 32) \<lparr>res_start = 0x10000000, res_end = 0x1000FFFF\<rparr> \<and>
   well_formed \<lparr>res_start = 0x10004000, res_end = 0x10004FFF\<rparr> \<and>
   sram_reserve_regions never_rejects True
     \<lparr>of_node = resolved [\<lparr>res_start = 0x10004000, res_end = 0x10004FFF\<rparr>],
      virt_base = 0xFFFF000000000000, pool = [], clk = None\<rparr>
     \<lparr>res_start = 0x10000000, res_end = 0x1000FFFF\<rparr>
   = (None,
      \<lparr>of_node = resolved [\<lparr>res_start = 0x10004000, res_end = 0x10004FFF\<rparr>],
       virt_base = 0xFFFF000000000000,
       pool = [\<lparr>virt = 0xFFFF000000000000, phys = 0x10000000, csize = 0x4000, avail = 0x4000\<rparr>,
               \<lparr>virt = 0xFFFF000000005000, phys = 0x10005000, csize = 0xB000, avail = 0xB000\<rparr>],
       clk = None\<rparr>) \<and>
   (\<exists>sp. [\<lparr>virt = 0xFFFF000000000000, phys = 0x10000000, csize = 0x4000, avail = 0x4000\<rparr>,
          \<lparr>virt = 0xFFFF000000005000, phys = 0x10005000, csize = 0xB000, avail = 0xB000\<rparr>]
         = map (span_chunk 0xFFFF000000000000 \<lparr>res_start = 0x10000000, res_end = 0x1000FFFF\<rparr>) sp \<and>
         (\<forall>x. cover_count
                 (map (reserved_interval \<lparr>res_start = 0x10000000, res_end = 0x1000FFFF\<rparr>)
                    [\<lparr>res_start = 0x10004000, res_end = 0x10004FFF\<rparr>]) x
               + cover_count sp x
               = (if x < region_size \<lparr>res_start = 0x10000000, res_end = 0x1000FFFF\<rparr> then 1 else 0)))"
proof -
  let ?res = "\<lparr>res_start = 0x10000000, res_end = 0x1000FFFF\<rparr>"
  let ?c = "\<lparr>res_start = 0x10004000, res_end = 0x10004FFF\<rparr>"
  let ?sram = "\<lparr>of_node = resolved [?c], virt_base = 0xFFFF000000000000, pool = [], clk = None\<rparr>"
  let ?sram' = "\<lparr>of_node = resolved [?c], virt_base = 0xFFFF000000000000,
       pool = [\<lparr>virt = 0xFFFF000000000000, phys = 0x10000000, csize = 0x4000, avail = 0x4000\<rparr>,
               \<lparr>virt = 0xFFFF000000005000, phys = 0x10005000, csize = 0xB000, avail = 0xB000\<rparr>],
       clk = None\<rparr>"
  have h1: "region_below (2 ^ 32) ?res"
    by (simp add: region_below_def region_size_def)
  have h2: "well_formed ?c"
    by (simp add: well_formed_def)
  have h2': "\<forall>c\<in>set [?c]. well_formed c"
    using h2 by simp
  have h3: "of_node ?sram = resolved [?c]"
    by simp
  have h4: "sram_reserve_regions never_rejects True ?sram ?res = (None, ?sram')"
    by code_simp
  from accepted_partition[OF h1 h2' h3 h4] have "\<exists>sp. pool ?sram' = pool ?sram @ map (span_chunk (virt_base ?sram) ?res) sp \<and>
              (\<forall>x. cover_count (map (reserved_interval ?res) [?c]) x + cover_count sp x
                     = (if x < region_size ?res then 1 else 0))" .
  then have "\<exists>sp. [\<lparr>virt = 0xFFFF000000000000, phys = 0x10000000, csize = 0x4000, avail = 0x4000\<rparr>,
          \<lparr>virt = 0xFFFF000000005000, phys = 0x10005000, csize = 0xB000, avail = 0xB000\<rparr>]
         = map (span_chunk 0xFFFF000000000000 ?res) sp \<and>
         (\<forall>x. cover_count (map (reserved_interval ?res) [?c]) x + cover_count sp x
               = (if x < region_size ?res then 1 else 0))"
    by simp
  with h1 h2 h4 show ?thesis by blast
qed

text \<open>
  C1 as stated fails for the region of exactly \<open>2 ^ 32\<close> bytes with one reservation
  \<open>[0x1000, 0x2000)\<close>: the end block's start is truncated to 0, so it is sorted first and
  passed over; the run is accepted with the single free span \<open>{0, 0x1000}\<close>, and offset
  \<open>0x2000\<close> lies in the region and in no interval.
\<close>

theorem accepted_partition_counterexample:
  "well_formed \<lparr>res_start = 0x1000, res_end = 0x1FFF\<rparr> \<and>
   sram_reserve_regions never_rejects True
     \<lparr>of_node = resolved [\<lparr>res_start = 0x1000, res_end = 0x1FFF\<rparr>],
      virt_base = 0xFFFF000000000000, pool = [], clk = None\<rparr>
     \<lparr>res_start = 0, res_end = 0xFFFFFFFF\<rparr>
   = (None,
      \<lparr>of_node = resolved [\<lparr>res_start = 0x1000, res_end = 0x1FFF\<rparr>],
       virt_base = 0xFFFF000000000000,
       pool = [span_chunk 0xFFFF000000000000 \<lparr>res_start = 0, res_end = 0xFFFFFFFF\<rparr> (0, 0x1000)],
       clk = None\<rparr>) \<and>
   0x2000 < region_size \<lparr>res_start = 0, res_end = 0xFFFFFFFF\<rparr> \<and>
   cover_count (map (reserved_interval \<lparr>res_start = 0, res_end = 0xFFFFFFFF\<rparr>)
                  [\<lparr>res_start = 0x1000, res_end = 0x1FFF\<rparr>]) 0x2000
     + cover_count [(0, 0x1000)] 0x2000 = 0"
proof -
  let ?res = "\<lparr>res_start = 0, res_end = 0xFFFFFFFF\<rparr>"
  let ?c = "\<lparr>res_start = 0x1000, res_end = 0x1FFF\<rparr>"
  have w: "well_formed ?c" by (simp add: well_formed_def)
  have run: "sram_reserve_regions never_rejects True
     \<lparr>of_node = resolved [?c], virt_base = 0xFFFF000000000000, pool = [], clk = None\<rparr> ?res
   = (None,
      \<lparr>of_node = resolved [?c], virt_base = 0xFFFF000000000000,
       pool = [span_chunk 0xFFFF000000000000 ?res (0, 0x1000)], clk = None\<rparr>)"
    by code_simp
  have sz: "0x2000 < region_size ?res"
    by (simp add: region_size_def)
  have cnt: "cover_count (map (reserved_interval ?res) [?c]) 0x2000
               + cover_count [(0, 0x1000)] 0x2000 = 0"
    by (simp add: covers_def reserved_interval_def region_size_def)
  from w run sz cnt show ?thesis by blast
qed

subsection \<open>C2\<close>

text \<open>
  C2, as it holds for the code: in a region smaller than \<open>2 ^ 32\<close> bytes, when all
  reservations are ranges within the region, the pool never rejects a registration, and
  two entries \<open>a\<close> and \<open>b\<close> of the list (in either order, anywhere in it) share an
  offset \<open>x\<close>, then \<open>sram_reserve_regions\<close> fails with \<open>OverlapDetected\<close> and
  \<open>sram_probe\<close> fails with it too, so that no device and no pool is published.
\<close>

theorem overlap_rejected:
  assumes r: "region_below (2 ^ 32) res"
    and wf: "\<forall>c\<in>set cs. well_formed c \<and> \<not> out_of_bounds res c"
    and ab: "{#a, b#} \<subseteq># mset cs"
    and xa: "covers (reserved_interval res a) x" and xb: "covers (reserved_interval res b) x"
    and nodes: "of_node sram = resolved cs"
  shows "fst (sram_reserve_regions never_rejects True sram res) = Some OverlapDetected \<and>
         sram_probe \<lparr>kzalloc_ok = True, mem_resource = Some res, request_mem_region_ok = True,
           ioremap_wc = Inr vb, gen_pool_create_err = None, np = resolved cs, rblocks_ok = True,
           chunk_ok = never_rejects, clk_get_ok = ck\<rparr> = Inl OverlapDetected"
proof -
  have 1: "fst (sram_reserve_regions never_rejects True sram res) = Some OverlapDetected"
    by (rule overlap_run[OF r wf ab xa xb nodes])
  have "fst (sram_reserve_regions never_rejects True
               \<lparr>of_node = resolved cs, virt_base = vb, pool = [], clk = None\<rparr> res)
          = Some OverlapDetected"
    by (rule overlap_run[OF r wf ab xa xb]) simp
  then have 2: "sram_probe \<lparr>kzalloc_ok = True, mem_resource = Some res, request_mem_region_ok = True,
           ioremap_wc = Inr vb, gen_pool_create_err = None, np = resolved cs, rblocks_ok = True,
           chunk_ok = never_rejects, clk_get_ok = ck\<rparr> = Inl OverlapDetected"
    by (simp add: probe_reserve)
  from 1 2 show ?thesis by blast
qed

theorem overlap_rejected_witness:
  "region_below (2 ^ 32) \<lparr>res_start = 0x10000000, res_end = 0x1000FFFF\<rparr> \<and>
   well_formed \<lparr>res_start = 0x10001000, res_end = 0x10001FFF\<rparr> \<and>
   \<not> out_of_bounds \<lparr>res_start = 0x10000000, res_end = 0x1000FFFF\<rparr>
         \<lparr>res_start = 0x10001000, res_end = 0x10001FFF\<rparr> \<and>
   well_formed \<lparr>res_start = 0x10001800, res_end = 0x100027FF\<rparr> \<and>
   \<not> out_of_bounds \<lparr>res_start = 0x10000000, res_end = 0x1000FFFF\<rparr>
         \<lparr>res_start = 0x10001800, res_end = 0x100027FF\<rparr> \<and>
   covers (reserved_interval \<lparr>res_start = 0x10000000, res_end = 0x1000FFFF\<rparr>
             \<lparr>res_start = 0x10001000, res_end = 0x10001FFF\<rparr>) 0x1800 \<and>
   covers (reserved_interval \<lparr>res_start = 0x10000000, res_end = 0x1000FFFF\<rparr>
             \<lparr>res_start = 0x10001800, res_end = 0x100027FF\<rparr>) 0x1800 \<and>
   fst (sram_reserve_regions never_rejects True
          \<lparr>of_node = resolved [\<lparr>res_start = 0x10001800, res_end = 0x100027FF\<rparr>,
                                \<lparr>res_start = 0x10001000, res_end = 0x10001FFF\<rparr>],
           virt_base = 0xFFFF000000000000, pool = [], clk = None\<rparr>
          \<lparr>res_start = 0x10000000, res_end = 0x1000FFFF\<rparr>) = Some OverlapDetected \<and>
   sram_probe \<lparr>kzalloc_ok = True,
       mem_resource = Some \<lparr>res_start = 0x10000000, res_end = 0x1000FFFF\<rparr>,
       request_mem_region_ok = True, ioremap_wc = Inr 0xFFFF000000000000,
       gen_pool_create_err = None,
       np = resolved [\<lparr>res_start = 0x10001800, res_end = 0x100027FF\<rparr>,
                      \<lparr>res_start = 0x10001000, res_end = 0x10001FFF\<rparr>],
       rblocks_ok = True, chunk_ok = never_rejects, clk_get_ok = True\<rparr> = Inl OverlapDetected"
proof -
  let ?res = "\<lparr>res_start = 0x10000000, res_end = 0x1000FFFF\<rparr>"
  let ?a = "\<lparr>res_start = 0x10001000, res_end = 0x10001FFF\<rparr>"
  let ?b = "\<lparr>res_start = 0x10001800, res_end = 0x100027FF\<rparr>"
  let ?sram = "\<lparr>of_node = resolved [?b, ?a], virt_base = 0xFFFF000000000000, pool = [], clk = None\<rparr>"
  have h1: "region_below (2 ^ 32) ?res"
    by (simp add: region_below_def region_size_def)
  have wa: "well_formed ?a" and wb: "well_formed ?b"
    by (simp_all add: well_formed_def)
  have ia: "\<not> out_of_bounds ?res ?a" and ib: "\<not> out_of_bounds ?res ?b"
    by (simp_all add: out_of_bounds_def reserved_interval_def region_size_def)
  have ca: "covers (reserved_interval ?res ?a) 0x1800"
    and cb: "covers (reserved_interval ?res ?b) 0x1800"
    by (simp_all add: covers_def reserved_interval_def region_size_def)
  have h2: "\<forall>c\<in>set [?b, ?a]. well_formed c \<and> \<not> out_of_bounds ?res c"
    using wa wb ia ib by simp
  have h3: "{#?a, ?b#} \<subseteq># mset [?b, ?a]"
    by (simp add: add_mset_commute)
  have h4: "of_node ?sram = resolved [?b, ?a]"
    by simp
  from overlap_rejected[OF h1 h2 h3 ca cb h4, of "0xFFFF000000000000" True] h1 wa wb ia ib ca cb
  show ?thesis by blast
qed

text \<open>
  C2 as stated fails in the region of exactly \<open>2 ^ 32\<close> bytes: a reservation of the
  whole region contains the reservation \<open>[0x3000, 0x4000)\<close>, but its size is truncated
  to 0 and the run is accepted; the span \<open>{0, 0x3000}\<close> is even registered as free.
\<close>

theorem overlap_rejected_counterexample:
  "well_formed \<lparr>res_start = 0, res_end = 0xFFFFFFFF\<rparr> \<and>
   \<not> out_of_bounds \<lparr>res_start = 0, res_end = 0xFFFFFFFF\<rparr> \<lparr>res_start = 0, res_end = 0xFFFFFFFF\<rparr> \<and>
   well_formed \<lparr>res_start = 0x3000, res_end = 0x3FFF\<rparr> \<and>
   \<not> out_of_bounds \<lparr>res_start = 0, res_end = 0xFFFFFFFF\<rparr> \<lparr>res_start = 0x3000, res_end = 0x3FFF\<rparr> \<and>
   covers (reserved_interval \<lparr>res_start = 0, res_end = 0xFFFFFFFF\<rparr>
             \<lparr>res_start = 0, res_end = 0xFFFFFFFF\<rparr>) 0x3000 \<and>
   covers (reserved_interval \<lparr>res_start = 0, res_end = 0xFFFFFFFF\<rparr>
             \<lparr>res_start = 0x3000, res_end = 0x3FFF\<rparr>) 0x3000 \<and>
   sram_reserve_regions never_rejects True
     \<lparr>of_node = resolved [\<lparr>res_start = 0, res_end = 0xFFFFFFFF\<rparr>,
                           \<lparr>res_start = 0x3000, res_end = 0x3FFF\<rparr>],
      virt_base = 0xFFFF000000000000, pool = [], clk = None\<rparr>
     \<lparr>res_start = 0, res_end = 0xFFFFFFFF\<rparr>
   = (None,
      \<lparr>of_node = resolved [\<lparr>res_start = 0, res_end = 0xFFFFFFFF\<rparr>,
                            \<lparr>res_start = 0x3000, res_end = 0x3FFF\<rparr>],
       virt_base = 0xFFFF000000000000,
       pool = [\<lparr>virt = 0xFFFF000000000000, phys = 0, csize = 0x3000, avail = 0x3000\<rparr>],
       clk = None\<rparr>)"
proof -
  let ?res = "\<lparr>res_start = 0, res_end = 0xFFFFFFFF\<rparr>"
  let ?a = "\<lparr>res_start = 0, res_end = 0xFFFFFFFF\<rparr>"
  let ?b = "\<lparr>res_start = 0x3000, res_end = 0x3FFF\<rparr>"
  have wa: "well_formed ?a" and wb: "well_formed ?b"
    by (simp_all add: well_formed_def)
  have ia: "\<not> out_of_bounds ?res ?a" and ib: "\<not> out_of_bounds ?res ?b"
    by (simp_all add: out_of_bounds_def reserved_interval_def region_size_def)
  have ca: "covers (reserved_interval ?res ?a) 0x3000"
    and cb: "covers (reserved_interval ?res ?b) 0x3000"
    by (simp_all add: covers_def reserved_interval_def region_size_def)
  have run: "sram_reserve_regions never_rejects True
          \<lparr>of_node = resolved [?a, ?b], virt_base = 0xFFFF000000000000, pool = [], clk = None\<rparr>
          ?res
   = (None,
      \<lparr>of_node = resolved [?a, ?b], virt_base = 0xFFFF000000000000,
       pool = [\<lparr>virt = 0xFFFF000000000000, phys = 0, csize = 0x3000, avail = 0x3000\<rparr>],
       clk = None\<rparr>)"
    by code_simp
  from wa wb ia ib ca cb run show ?thesis by blast
qed

subsection \<open>C3\<close>

text \<open>
  C3 fails on the code: the test of the first loop compares the child's start with the
  region's start and the child's end with the region's end, and so misses a child whose
  end lies before its start. In the region \<open>[0x1000, 0x1FFF]\<close> the child with start
  \<open>0x5000\<close> and end \<open>0x1500\<close> starts at offset \<open>0x4000\<close>, beyond \<open>Region.size\<close>, and
  is not reported as outside: the run is accepted, \<open>sram_probe\<close> publishes the device,
  and the pool holds the physical addresses \<open>0x2000\<close> to \<open>0x4FFF\<close>, which are not part
  of the region. For children that are ranges the rejection holds (lemma
  \<open>range_out_of_bounds_rejected\<close>).
\<close>

theorem bounds_check_misses:
  "out_of_bounds \<lparr>res_start = 0x1000, res_end = 0x1FFF\<rparr> \<lparr>res_start = 0x5000, res_end = 0x1500\<rparr> \<and>
   region_size \<lparr>res_start = 0x1000, res_end = 0x1FFF\<rparr> = 0x1000 \<and>
   fst (reserved_interval \<lparr>res_start = 0x1000, res_end = 0x1FFF\<rparr>
          \<lparr>res_start = 0x5000, res_end = 0x1500\<rparr>) = 0x4000 \<and>
   \<not> outside \<lparr>res_start = 0x1000, res_end = 0x1FFF\<rparr> \<lparr>res_start = 0x5000, res_end = 0x1500\<rparr> \<and>
   child_block \<lparr>res_start = 0x1000, res_end = 0x1FFF\<rparr> \<lparr>res_start = 0x5000, res_end = 0x1500\<rparr>
     = \<lparr>start = 0x4000, size_r = 0xFFFFC501\<rparr> \<and>
   sram_reserve_regions never_rejects True
     \<lparr>of_node = resolved [\<lparr>res_start = 0x5000, res_end = 0x1500\<rparr>],
      virt_base = 0xFFFF000000000000, pool = [], clk = None\<rparr>
     \<lparr>res_start = 0x1000, res_end = 0x1FFF\<rparr>
   = (None,
      \<lparr>of_node = resolved [\<lparr>res_start = 0x5000, res_end = 0x1500\<rparr>],
       virt_base = 0xFFFF000000000000,
       pool = [\<lparr>virt = 0xFFFF000000000000, phys = 0x1000, csize = 0x1000, avail = 0x1000\<rparr>,
               \<lparr>virt = 0xFFFF000000001000, phys = 0x2000, csize = 0x3000, avail = 0x3000\<rparr>],
       clk = None\<rparr>) \<and>
   sram_probe \<lparr>kzalloc_ok = True,
       mem_resource = Some \<lparr>res_start = 0x1000, res_end = 0x1FFF\<rparr>,
       request_mem_region_ok = True, ioremap_wc = Inr 0xFFFF000000000000,
       gen_pool_create_err = None,
       np = resolved [\<lparr>res_start = 0x5000, res_end = 0x1500\<rparr>],
       rblocks_ok = True, chunk_ok = never_rejects, clk_get_ok = False\<rparr>
   = Inr \<lparr>of_node = resolved [\<lparr>res_start = 0x5000, res_end = 0x1500\<rparr>],
       virt_base = 0xFFFF000000000000,
       pool = [\<lparr>virt = 0xFFFF000000000000, phys = 0x1000, csize = 0x1000, avail = 0x1000\<rparr>,
               \<lparr>virt = 0xFFFF000000001000, phys = 0x2000, csize = 0x3000, avail = 0x3000\<rparr>],
       clk = None\<rparr>"
proof -
  let ?res = "\<lparr>res_start = 0x1000, res_end = 0x1FFF\<rparr>"
  let ?c = "\<lparr>res_start = 0x5000, res_end = 0x1500\<rparr>"
  have 1: "out_of_bounds ?res ?c"
    by (simp add: out_of_bounds_def reserved_interval_def region_size_def)
  have 2: "region_size ?res = 0x1000" by (simp add: region_size_def)
  have 3: "fst (reserved_interval ?res ?c) = 0x4000" by (simp add: reserved_interval_def)
  have 4: "\<not> outside ?res ?c" by (simp add: outside_def)
  have 5: "child_block ?res ?c = \<lparr>start = 0x4000, size_r = 0xFFFFC501\<rparr>"
    by (simp add: child_block_def resource_size_def)
  have 6: "sram_reserve_regions never_rejects True
     \<lparr>of_node = resolved [?c], virt_base = 0xFFFF000000000000, pool = [], clk = None\<rparr> ?res
   = (None,
      \<lparr>of_node = resolved [?c], virt_base = 0xFFFF000000000000,
       pool = [\<lparr>virt = 0xFFFF000000000000, phys = 0x1000, csize = 0x1000, avail = 0x1000\<rparr>,
               \<lparr>virt = 0xFFFF000000001000, phys = 0x2000, csize = 0x3000, avail = 0x3000\<rparr>],
       clk = None\<rparr>)"
    by code_simp
  have 7: "sram_probe \<lparr>kzalloc_ok = True, mem_resource = Some ?res,
       request_mem_region_ok = True, ioremap_wc = Inr 0xFFFF000000000000,
       gen_pool_create_err = None, np = resolved [?c],
       rblocks_ok = True, chunk_ok = never_rejects, clk_get_ok = False\<rparr>
   = Inr \<lparr>of_node = resolved [?c], virt_base = 0xFFFF000000000000,
       pool = [\<lparr>virt = 0xFFFF000000000000, phys = 0x1000, csize = 0x1000, avail = 0x1000\<rparr>,
               \<lparr>virt = 0xFFFF000000001000, phys = 0x2000, csize = 0x3000, avail = 0x3000\<rparr>],
       clk = None\<rparr>"
    by code_simp
  from 1 2 3 4 5 6 7 show ?thesis by blast
qed

subsection \<open>C4\<close>

text \<open>
  C4, as it holds for the code: in a region smaller than \<open>2 ^ 31\<close> bytes, for
  reservations that are ranges no two of which start at the same address, every
  permutation of the children gives the same result of \<open>sram_reserve_regions\<close> (the
  same error or none) and the same pool, chunk for chunk.
\<close>

theorem order_independent:
  assumes r: "region_below (2 ^ 31) res"
    and wf: "\<forall>c\<in>set cs. well_formed c"
    and inj: "inj_on res_start (set cs)"
    and perm: "mset cs' = mset cs"
  shows "fst (sram_reserve_regions alloc km (sram\<lparr>of_node := resolved cs'\<rparr>) res)
           = fst (sram_reserve_regions alloc km (sram\<lparr>of_node := resolved cs\<rparr>) res) \<and>
         pool (snd (sram_reserve_regions alloc km (sram\<lparr>of_node := resolved cs'\<rparr>) res))
           = pool (snd (sram_reserve_regions alloc km (sram\<lparr>of_node := resolved cs\<rparr>) res))"
proof (cases "\<exists>c\<in>set cs. outside res c")
  case True
  have st: "set cs' = set cs" using perm by (rule mset_eq_setD)
  from True st have "\<exists>c\<in>set cs'. outside res c" by simp
  with True show ?thesis
    by (simp add: sram_reserve_regions_def read_children_outside)
next
  case False
  have st: "set cs' = set cs" using perm by (rule mset_eq_setD)
  from False have ins: "\<forall>c\<in>set cs. \<not> outside res c" by simp
  with st have ins': "\<forall>c\<in>set cs'. \<not> outside res c" by simp
  show ?thesis
    by (simp add: sram_reserve_regions_def read_children_inside[OF ins]
          read_children_inside[OF ins'] permuted_sorted[OF r wf ins inj perm] Let_def)
qed

theorem order_independent_witness:
  "region_below (2 ^ 31) \<lparr>res_start = 0x10000000, res_end = 0x1000FFFF\<rparr> \<and>
   well_formed \<lparr>res_start = 0x10002000, res_end = 0x10002FFF\<rparr> \<and>
   well_formed \<lparr>res_start = 0x10008000, res_end = 0x10008FFF\<rparr> \<and>
   fst (sram_reserve_regions never_rejects True
     \<lparr>of_node = resolved [\<lparr>res_start = 0x10008000, res_end = 0x10008FFF\<rparr>,
                           \<lparr>res_start = 0x10002000, res_end = 0x10002FFF\<rparr>],
      virt_base = 0xFFFF000000000000, pool = [], clk = None\<rparr>
     \<lparr>res_start = 0x10000000, res_end = 0x1000FFFF\<rparr>)
   = fst (sram_reserve_regions never_rejects True
     \<lparr>of_node = resolved [\<lparr>res_start = 0x10002000, res_end = 0x10002FFF\<rparr>,
                           \<lparr>res_start = 0x10008000, res_end = 0x10008FFF\<rparr>],
      virt_base = 0xFFFF000000000000, pool = [], clk = None\<rparr>
     \<lparr>res_start = 0x10000000, res_end = 0x1000FFFF\<rparr>) \<and>
   pool (snd (sram_reserve_regions never_rejects True
     \<lparr>of_node = resolved [\<lparr>res_start = 0x10008000, res_end = 0x10008FFF\<rparr>,
                           \<lparr>res_start = 0x10002000, res_end = 0x10002FFF\<rparr>],
      virt_base = 0xFFFF000000000000, pool = [], clk = None\<rparr>
     \<lparr>res_start = 0x10000000, res_end = 0x1000FFFF\<rparr>))
   = pool (snd (sram_reserve_regions never_rejects True
     \<lparr>of_node = resolved [\<lparr>res_start = 0x10002000, res_end = 0x10002FFF\<rparr>,
                           \<lparr>res_start = 0x10008000, res_end = 0x10008FFF\<rparr>],
      virt_base = 0xFFFF000000000000, pool = [], clk = None\<rparr>
     \<lparr>res_start = 0x10000000, res_end = 0x1000FFFF\<rparr>))"
proof -
  let ?res = "\<lparr>res_start = 0x10000000, res_end = 0x1000FFFF\<rparr>"
  let ?a = "\<lparr>res_start = 0x10002000, res_end = 0x10002FFF\<rparr>"
  let ?b = "\<lparr>res_start = 0x10008000, res_end = 0x10008FFF\<rparr>"
  let ?sram = "\<lparr>of_node = [], virt_base = 0xFFFF000000000000, pool = [], clk = None\<rparr>"
  have h1: "region_below (2 ^ 31) ?res"
    by (simp add: region_below_def region_size_def)
  have wa: "well_formed ?a" and wb: "well_formed ?b"
    by (simp_all add: well_formed_def)
  have h2: "\<forall>c\<in>set [?a, ?b]. well_formed c" using wa wb by simp
  have h3: "inj_on res_start (set [?a, ?b])" by simp
  have h4: "mset [?b, ?a] = mset [?a, ?b]" by (simp add: add_mset_commute)
  from order_independent[OF h1 h2 h3 h4, of never_rejects True ?sram] h1 wa wb
  show ?thesis by simp
qed

text \<open>
  C4 as stated fails where two reservations start at the same offset: the sort is stable
  and looks at the start only, so an empty reservation in front of a reservation of
  \<open>0x100\<close> bytes at the same start is accepted, and the same two children in the other
  order are rejected as an overlap.
\<close>

theorem order_independent_counterexample:
  "mset [\<lparr>res_start = 0x10001000, res_end = 0x100010FF\<rparr>, \<lparr>res_start = 0x10001000, res_end = 0x10000FFF\<rparr>]
     = mset [\<lparr>res_start = 0x10001000, res_end = 0x10000FFF\<rparr>, \<lparr>res_start = 0x10001000, res_end = 0x100010FF\<rparr>] \<and>
   region_size \<lparr>res_start = 0x10001000, res_end = 0x10000FFF\<rparr> = 0 \<and>
   \<not> out_of_bounds \<lparr>res_start = 0x10000000, res_end = 0x1000FFFF\<rparr>
         \<lparr>res_start = 0x10001000, res_end = 0x10000FFF\<rparr> \<and>
   \<not> out_of_bounds \<lparr>res_start = 0x10000000, res_end = 0x1000FFFF\<rparr>
         \<lparr>res_start = 0x10001000, res_end = 0x100010FF\<rparr> \<and>
   sram_reserve_regions never_rejects True
     \<lparr>of_node = resolved [\<lparr>res_start = 0x10001000, res_end = 0x10000FFF\<rparr>,
                           \<lparr>res_start = 0x10001000, res_end = 0x100010FF\<rparr>],
      virt_base = 0xFFFF000000000000, pool = [], clk = None\<rparr>
     \<lparr>res_start = 0x10000000, res_end = 0x1000FFFF\<rparr>
   = (None,
      \<lparr>of_node = resolved [\<lparr>res_start = 0x10001000, res_end = 0x10000FFF\<rparr>,
                            \<lparr>res_start = 0x10001000, res_end = 0x100010FF\<rparr>],
       virt_base = 0xFFFF000000000000,
       pool = [\<lparr>virt = 0xFFFF000000000000, phys = 0x10000000, csize = 0x1000, avail = 0x1000\<rparr>,
               \<lparr>virt = 0xFFFF000000001100, phys = 0x10001100, csize = 0xEF00, avail = 0xEF00\<rparr>],
       clk = None\<rparr>) \<and>
   sram_reserve_regions never_rejects True
     \<lparr>of_node = resolved [\<lparr>res_start = 0x10001000, res_end = 0x100010FF\<rparr>,
                           \<lparr>res_start = 0x10001000, res_end = 0x10000FFF\<rparr>],
      virt_base = 0xFFFF000000000000, pool = [], clk = None\<rparr>
     \<lparr>res_start = 0x10000000, res_end = 0x1000FFFF\<rparr>
   = (Some OverlapDetected,
      \<lparr>of_node = resolved [\<lparr>res_start = 0x10001000, res_end = 0x100010FF\<rparr>,
                            \<lparr>res_start = 0x10001000, res_end = 0x10000FFF\<rparr>],
       virt_base = 0xFFFF000000000000,
       pool = [\<lparr>virt = 0xFFFF000000000000, phys = 0x10000000, csize = 0x1000, avail = 0x1000\<rparr>],
       clk = None\<rparr>)"
proof -
  let ?res = "\<lparr>res_start = 0x10000000, res_end = 0x1000FFFF\<rparr>"
  let ?z = "\<lparr>res_start = 0x10001000, res_end = 0x10000FFF\<rparr>"
  let ?b = "\<lparr>res_start = 0x10001000, res_end = 0x100010FF\<rparr>"
  have m: "mset [?b, ?z] = mset [?z, ?b]" by (simp add: add_mset_commute)
  have z: "region_size ?z = 0" by (simp add: region_size_def)
  have iz: "\<not> out_of_bounds ?res ?z" and ib: "\<not> out_of_bounds ?res ?b"
    by (simp_all add: out_of_bounds_def reserved_interval_def region_size_def)
  have r1: "sram_reserve_regions never_rejects True
     \<lparr>of_node = resolved [?z, ?b], virt_base = 0xFFFF000000000000, pool = [], clk = None\<rparr> ?res
   = (None,
      \<lparr>of_node = resolved [?z, ?b], virt_base = 0xFFFF000000000000,
       pool = [\<lparr>virt = 0xFFFF000000000000, phys = 0x10000000, csize = 0x1000, avail = 0x1000\<rparr>,
               \<lparr>virt = 0xFFFF000000001100, phys = 0x10001100, csize = 0xEF00, avail = 0xEF00\<rparr>],
       clk = None\<rparr>)"
    by code_simp
  have r2: "sram_reserve_regions never_rejects True
     \<lparr>of_node = resolved [?b, ?z], virt_base = 0xFFFF000000000000, pool = [], clk = None\<rparr> ?res
   = (Some OverlapDetected,
      \<lparr>of_node = resolved [?b, ?z], virt_base = 0xFFFF000000000000,
       pool = [\<lparr>virt = 0xFFFF000000000000, phys = 0x10000000, csize = 0x1000, avail = 0x1000\<rparr>],
       clk = None\<rparr>)"
    by code_simp
  from m z iz ib r1 r2 show ?thesis by blast
qed

subsection \<open>C5\<close>

text \<open>
  C5, as it holds for the code: with no children, in a region that is not empty and
  smaller than \<open>2 ^ 32\<close> bytes, and a pool that accepts the registration, the run is
  accepted and registers exactly one chunk, at offset 0 and of the size of the region.
\<close>

theorem empty_reservations:
  assumes r: "region_below (2 ^ 32) res" and nodes: "of_node sram = []"
  shows "sram_reserve_regions never_rejects True sram res
           = (None, sram\<lparr>pool := pool sram @
                [\<lparr>virt = virt_base sram, phys = res_start res,
                  csize = resource_size res, avail = resource_size res\<rparr>]\<rparr>) \<and>
         unat (resource_size res) = region_size res"
proof -
  have lt: "region_size res < 2 ^ 32" and pos: "0 < region_size res"
    using r by (simp_all add: region_below_def region_size_def)
  have z: "unat (resource_size res) = region_size res"
    by (rule unat_resource_size[OF region_below_wf[OF r] lt])
  have n: "unat (resource_size res) < 2 ^ 32" using z lt by simp
  have e: "unat (start (end_block res)) = region_size res"
    using end_block_interval[OF r] by (simp add: block_interval_def)
  have w: "(ucast (start (end_block res)) :: 64 word) = resource_size res"
    using narrow_widen[OF n] by (simp add: end_block_def)
  have ne: "resource_size res \<noteq> 0" using z pos by auto
  have "scan_blocks never_rejects (virt_base sram) res [end_block res] 0 (pool sram)
          = (None, pool sram @ [\<lparr>virt = virt_base sram, phys = res_start res,
                  csize = resource_size res, avail = resource_size res\<rparr>])"
    using ne by (simp add: w gen_pool_add_virt_def never_rejects_def Let_def)
  then have "sram_reserve_regions never_rejects True sram res
           = (None, sram\<lparr>pool := pool sram @
                [\<lparr>virt = virt_base sram, phys = res_start res,
                  csize = resource_size res, avail = resource_size res\<rparr>]\<rparr>)"
    using nodes by (simp add: sram_reserve_regions_def list_sort_def Let_def)
  with z show ?thesis by blast
qed

theorem empty_reservations_witness:
  "region_below (2 ^ 32) \<lparr>res_start = 0x10000000, res_end = 0x1000FFFF\<rparr> \<and>
   sram_reserve_regions never_rejects True
     \<lparr>of_node = [], virt_base = 0xFFFF000000000000, pool = [], clk = None\<rparr>
     \<lparr>res_start = 0x10000000, res_end = 0x1000FFFF\<rparr>
   = (None,
      \<lparr>of_node = [], virt_base = 0xFFFF000000000000,
       pool = [\<lparr>virt = 0xFFFF000000000000, phys = 0x10000000, csize = 0x10000, avail = 0x10000\<rparr>],
       clk = None\<rparr>) \<and>
   region_size \<lparr>res_start = 0x10000000, res_end = 0x1000FFFF\<rparr> = 0x10000"
proof -
  let ?res = "\<lparr>res_start = 0x10000000, res_end = 0x1000FFFF\<rparr>"
  let ?sram = "\<lparr>of_node = [], virt_base = 0xFFFF000000000000, pool = [], clk = None\<rparr>"
  have h1: "region_below (2 ^ 32) ?res"
    by (simp add: region_below_def region_size_def)
  have h2: "of_node ?sram = []" by simp
  have sz: "region_size ?res = 0x10000" by (simp add: region_size_def)
  from empty_reservations[OF h1 h2] have "sram_reserve_regions never_rejects True ?sram ?res
           = (None, ?sram\<lparr>pool := pool ?sram @
                [\<lparr>virt = virt_base ?sram, phys = res_start ?res,
                  csize = resource_size ?res, avail = resource_size ?res\<rparr>]\<rparr>)"
    by blast
  then have "sram_reserve_regions never_rejects True ?sram ?res
   = (None,
      \<lparr>of_node = [], virt_base = 0xFFFF000000000000,
       pool = [\<lparr>virt = 0xFFFF000000000000, phys = 0x10000000, csize = 0x10000, avail = 0x10000\<rparr>],
       clk = None\<rparr>)"
    by (simp add: resource_size_def)
  with h1 sz show ?thesis by blast
qed

text \<open>
  C5 as stated fails for the region of exactly \<open>2 ^ 32\<close> bytes: the end block's start
  is truncated to 0, equals the cursor, and nothing is registered.
\<close>

theorem empty_reservations_counterexample:
  "0 < region_size \<lparr>res_start = 0, res_end = 0xFFFFFFFF\<rparr> \<and>
   sram_reserve_regions never_rejects True
     \<lparr>of_node = [], virt_base = 0xFFFF000000000000, pool = [], clk = None\<rparr>
     \<lparr>res_start = 0, res_end = 0xFFFFFFFF\<rparr>
   = (None, \<lparr>of_node = [], virt_base = 0xFFFF000000000000, pool = [], clk = None\<rparr>)"
proof -
  have "0 < region_size \<lparr>res_start = 0, res_end = 0xFFFFFFFF\<rparr>"
    by (simp add: region_size_def)
  moreover have "sram_reserve_regions never_rejects True
     \<lparr>of_node = [], virt_base = 0xFFFF000000000000, pool = [], clk = None\<rparr>
     \<lparr>res_start = 0, res_end = 0xFFFFFFFF\<rparr>
   = (None, \<lparr>of_node = [], virt_base = 0xFFFF000000000000, pool = [], clk = None\<rparr>)"
    by code_simp
  ultimately show ?thesis by blast
qed

subsection \<open>C6\<close>

text \<open>
  C6, as it holds for the code: when the next block starts at the cursor and the sum of
  its start and size is below \<open>2 ^ 32\<close>, the loop registers nothing and goes on with the
  cursor at \<open>block->start + block->size\<close>. At that step, a block of size 0 leaves cursor
  and pool as they are; a sentinel \<open>b'\<close> that starts where the block ends closes the run
  without a chunk; and when the next block \<open>b'\<close> starts further on and the pool accepts,
  the chunk registered next starts exactly at the block's end. With the cursor at 0 the
  block is the reservation at offset 0.
\<close>

theorem adjacent_block:
  assumes eq: "unat (start b) = unat cur"
    and nw: "unat (start b) + unat (size_r b) < 2 ^ 32"
  shows "(\<exists>cur'. unat cur' = unat (start b) + unat (size_r b) \<and>
            scan_blocks alloc vb res (b # bs) cur p = scan_blocks alloc vb res bs cur' p) \<and>
         (size_r b = 0 \<longrightarrow>
            scan_blocks alloc vb res (b # bs) cur p = scan_blocks alloc vb res bs cur p) \<and>
         (unat (start b') = unat (start b) + unat (size_r b) \<longrightarrow>
            scan_blocks alloc vb res [b, b'] cur p = (None, p)) \<and>
         (unat (start b) + unat (size_r b) < unat (start b') \<and>
          alloc p (span_chunk vb res (unat (start b) + unat (size_r b),
                     unat (start b') - (unat (start b) + unat (size_r b)))) \<longrightarrow>
            (\<exists>cur'. scan_blocks alloc vb res (b # b' # bs) cur p
               = scan_blocks alloc vb res bs cur'
                   (p @ [span_chunk vb res (unat (start b) + unat (size_r b),
                           unat (start b') - (unat (start b) + unat (size_r b)))])))"
proof -
  let ?e = "ucast (start b + size_r b) :: 64 word"
  have e: "unat ?e = unat (start b) + unat (size_r b)" by (rule unat_block_end[OF nw])
  have step: "scan_blocks alloc vb res (b # xs) cur p = scan_blocks alloc vb res xs ?e p" for xs
    by (rule equal_step[OF eq])
  have 1: "\<exists>cur'. unat cur' = unat (start b) + unat (size_r b) \<and>
            scan_blocks alloc vb res (b # bs) cur p = scan_blocks alloc vb res bs cur' p"
    using e step by blast
  have 2: "size_r b = 0 \<longrightarrow>
            scan_blocks alloc vb res (b # bs) cur p = scan_blocks alloc vb res bs cur p"
  proof
    assume z: "size_r b = 0"
    then have "?e = ucast (start b)" by simp
    also have "\<dots> = cur" using eq by (simp add: word_unat_eq_iff unat_widen)
    finally have "?e = cur" .
    with step show "scan_blocks alloc vb res (b # bs) cur p = scan_blocks alloc vb res bs cur p"
      by simp
  qed
  have 3: "unat (start b') = unat (start b) + unat (size_r b) \<longrightarrow>
            scan_blocks alloc vb res [b, b'] cur p = (None, p)"
  proof
    assume "unat (start b') = unat (start b) + unat (size_r b)"
    then have "unat (start b') = unat ?e" by (simp add: e)
    from equal_step[OF this, of alloc vb res "[]" p] step[of "[b']"]
    show "scan_blocks alloc vb res [b, b'] cur p = (None, p)" by simp
  qed
  have 4: "unat (start b) + unat (size_r b) < unat (start b') \<and>
          alloc p (span_chunk vb res (unat (start b) + unat (size_r b),
                     unat (start b') - (unat (start b) + unat (size_r b)))) \<longrightarrow>
            (\<exists>cur'. scan_blocks alloc vb res (b # b' # bs) cur p
               = scan_blocks alloc vb res bs cur'
                   (p @ [span_chunk vb res (unat (start b) + unat (size_r b),
                           unat (start b') - (unat (start b) + unat (size_r b)))]))"
  proof
    assume a: "unat (start b) + unat (size_r b) < unat (start b') \<and>
          alloc p (span_chunk vb res (unat (start b) + unat (size_r b),
                     unat (start b') - (unat (start b) + unat (size_r b))))"
    then have lt: "unat ?e < unat (start b')"
      and ok: "alloc p (span_chunk vb res (unat ?e, unat (start b') - unat ?e))"
      by (simp_all add: e)
    from gap_step[where alloc=alloc and p=p and vb=vb and res=res and bs=bs, OF lt ok]
      step[of "b' # bs"]
    show "\<exists>cur'. scan_blocks alloc vb res (b # b' # bs) cur p
               = scan_blocks alloc vb res bs cur'
                   (p @ [span_chunk vb res (unat (start b) + unat (size_r b),
                           unat (start b') - (unat (start b) + unat (size_r b)))])"
      by (simp add: e) blast
  qed
  from 1 2 3 4 show ?thesis by blast
qed

theorem adjacent_block_witness:
  "unat (start \<lparr>start = 0, size_r = 0x1000\<rparr>) = unat (0 :: 64 word) \<and>
   unat (start \<lparr>start = 0, size_r = 0x1000\<rparr>) + unat (size_r \<lparr>start = 0, size_r = 0x1000\<rparr>) < 2 ^ 32 \<and>
   (\<exists>cur'. unat cur' = 0x1000 \<and>
      scan_blocks never_rejects 0xFFFF000000000000 \<lparr>res_start = 0x10000000, res_end = 0x1000FFFF\<rparr>
        [\<lparr>start = 0, size_r = 0x1000\<rparr>, \<lparr>start = 0x10000, size_r = 0\<rparr>] 0 []
      = scan_blocks never_rejects 0xFFFF000000000000 \<lparr>res_start = 0x10000000, res_end = 0x1000FFFF\<rparr>
        [\<lparr>start = 0x10000, size_r = 0\<rparr>] cur' []) \<and>
   (\<exists>cur'. scan_blocks never_rejects 0xFFFF000000000000 \<lparr>res_start = 0x10000000, res_end = 0x1000FFFF\<rparr>
        [\<lparr>start = 0, size_r = 0x1000\<rparr>, \<lparr>start = 0x10000, size_r = 0\<rparr>] 0 []
      = scan_blocks never_rejects 0xFFFF000000000000 \<lparr>res_start = 0x10000000, res_end = 0x1000FFFF\<rparr>
        [] cur'
        [span_chunk 0xFFFF000000000000 \<lparr>res_start = 0x10000000, res_end = 0x1000FFFF\<rparr>
           (0x1000, 0xF000)]) \<and>
   scan_blocks never_rejects 0xFFFF000000000000 \<lparr>res_start = 0x10000000, res_end = 0x1000FFFF\<rparr>
     [\<lparr>start = 0xF000, size_r = 0x1000\<rparr>, \<lparr>start = 0x10000, size_r = 0\<rparr>] 0xF000 []
   = (None, []) \<and>
   scan_blocks never_rejects 0xFFFF000000000000 \<lparr>res_start = 0x10000000, res_end = 0x1000FFFF\<rparr>
     [\<lparr>start = 0x10000, size_r = 0\<rparr>] 0x10000 []
   = scan_blocks never_rejects 0xFFFF000000000000 \<lparr>res_start = 0x10000000, res_end = 0x1000FFFF\<rparr>
     [] 0x10000 []"
proof -
  let ?res = "\<lparr>res_start = 0x10000000, res_end = 0x1000FFFF\<rparr>"
  let ?vb = "0xFFFF000000000000 :: 64 word"
  let ?a = "\<lparr>start = 0, size_r = 0x1000\<rparr> :: sram_reserve"
  let ?t = "\<lparr>start = 0xF000, size_r = 0x1000\<rparr> :: sram_reserve"
  let ?e = "\<lparr>start = 0x10000, size_r = 0\<rparr> :: sram_reserve"
  have a1: "unat (start ?a) = unat (0 :: 64 word)" by simp
  have a2: "unat (start ?a) + unat (size_r ?a) < 2 ^ 32" by simp
  have t1: "unat (start ?t) = unat (0xF000 :: 64 word)" by simp
  have t2: "unat (start ?t) + unat (size_r ?t) < 2 ^ 32" by simp
  have e1: "unat (start ?e) = unat (0x10000 :: 64 word)" by simp
  have e2: "unat (start ?e) + unat (size_r ?e) < 2 ^ 32" by simp
  note A = adjacent_block[OF a1 a2, where alloc=never_rejects and vb="?vb" and res="?res"
             and p="[]" and b'="?e"]
  have "\<exists>cur'. unat cur' = unat (start ?a) + unat (size_r ?a) \<and>
          scan_blocks never_rejects ?vb ?res (?a # [?e]) 0 []
            = scan_blocks never_rejects ?vb ?res [?e] cur' []"
    using A[where bs="[?e]"] by (rule conjunct1)
  then have c1: "\<exists>cur'. unat cur' = 0x1000 \<and>
          scan_blocks never_rejects ?vb ?res [?a, ?e] 0 []
            = scan_blocks never_rejects ?vb ?res [?e] cur' []"
    by (simp del: scan_blocks.simps)
  have g: "unat (start ?a) + unat (size_r ?a) < unat (start ?e) \<and>
           never_rejects [] (span_chunk ?vb ?res (unat (start ?a) + unat (size_r ?a),
              unat (start ?e) - (unat (start ?a) + unat (size_r ?a))))"
    by (simp add: never_rejects_def)
  have "\<exists>cur'. scan_blocks never_rejects ?vb ?res (?a # ?e # []) 0 []
          = scan_blocks never_rejects ?vb ?res [] cur'
              ([] @ [span_chunk ?vb ?res (unat (start ?a) + unat (size_r ?a),
                       unat (start ?e) - (unat (start ?a) + unat (size_r ?a)))])"
    using A[where bs="[]"] g by blast
  then have c2: "\<exists>cur'. scan_blocks never_rejects ?vb ?res [?a, ?e] 0 []
          = scan_blocks never_rejects ?vb ?res [] cur' [span_chunk ?vb ?res (0x1000, 0xF000)]"
    by (simp del: scan_blocks.simps)
  have s: "unat (start ?e) = unat (start ?t) + unat (size_r ?t)" by simp
  have c3: "scan_blocks never_rejects ?vb ?res [?t, ?e] 0xF000 [] = (None, [])"
    using adjacent_block[OF t1 t2, where alloc=never_rejects and vb="?vb" and res="?res"
             and p="[]" and b'="?e" and bs="[]"] s
    by blast
  have z: "size_r ?e = 0" by simp
  have c4: "scan_blocks never_rejects ?vb ?res [?e] 0x10000 []
              = scan_blocks never_rejects ?vb ?res [] 0x10000 []"
    using adjacent_block[OF e1 e2, where alloc=never_rejects and vb="?vb" and res="?res"
             and p="[]" and b'="?e" and bs="[]"] z
    by blast
  from a1 a2 c1 c2 c3 c4 show ?thesis by blast
qed

text \<open>
  C6 as stated fails in two ways. The sum \<open>block->start + block->size\<close> is a \<open>u32\<close>: in
  the region of exactly \<open>2 ^ 32\<close> bytes the reservation \<open>[0x7FFFF000, 2 ^ 32)\<close> is met
  at the cursor \<open>0x7FFFF000\<close>, and the cursor goes on at 0, not at \<open>2 ^ 32\<close>. And an
  empty reservation is not inert where it does not start at the cursor: in a region of
  \<open>0x10000\<close> bytes without other reservations, the empty reservation at offset
  \<open>0x4000\<close> splits the one free span \<open>{0, 0x10000}\<close> into \<open>{0, 0x4000}\<close> and
  \<open>{0x4000, 0xC000}\<close>.
\<close>

theorem adjacent_block_counterexample:
  "unat (start \<lparr>start = 0x7FFFF000, size_r = 0x80001000\<rparr>) = unat (0x7FFFF000 :: 64 word) \<and>
   unat (start \<lparr>start = 0x7FFFF000, size_r = 0x80001000\<rparr>)
     + unat (size_r \<lparr>start = 0x7FFFF000, size_r = 0x80001000\<rparr>) = 0x100000000 \<and>
   cursor_trace [\<lparr>start = 0x7FFFF000, size_r = 0x80001000\<rparr>] 0x7FFFF000 = [0x7FFFF000, 0] \<and>
   list_sort sram_reserve_cmp
     (map (child_block \<lparr>res_start = 0, res_end = 0xFFFFFFFF\<rparr>)
        [\<lparr>res_start = 0x1000, res_end = 0x7FFFEFFF\<rparr>,
         \<lparr>res_start = 0x7FFFF000, res_end = 0xFFFFFFFF\<rparr>]
      @ [end_block \<lparr>res_start = 0, res_end = 0xFFFFFFFF\<rparr>])
   = [\<lparr>start = 0, size_r = 0\<rparr>, \<lparr>start = 0x1000, size_r = 0x7FFFE000\<rparr>,
      \<lparr>start = 0x7FFFF000, size_r = 0x80001000\<rparr>] \<and>
   cursor_trace [\<lparr>start = 0, size_r = 0\<rparr>, \<lparr>start = 0x1000, size_r = 0x7FFFE000\<rparr>,
                 \<lparr>start = 0x7FFFF000, size_r = 0x80001000\<rparr>] 0
   = [0, 0, 0x7FFFF000, 0] \<and>
   fst (sram_reserve_regions never_rejects True
     \<lparr>of_node = resolved [\<lparr>res_start = 0x1000, res_end = 0x7FFFEFFF\<rparr>,
                           \<lparr>res_start = 0x7FFFF000, res_end = 0xFFFFFFFF\<rparr>],
      virt_base = 0xFFFF000000000000, pool = [], clk = None\<rparr>
     \<lparr>res_start = 0, res_end = 0xFFFFFFFF\<rparr>) = None \<and>
   sram_reserve_regions never_rejects True
     \<lparr>of_node = [], virt_base = 0xFFFF000000000000, pool = [], clk = None\<rparr>
     \<lparr>res_start = 0x10000000, res_end = 0x1000FFFF\<rparr>
   = (None,
      \<lparr>of_node = [], virt_base = 0xFFFF000000000000,
       pool = [\<lparr>virt = 0xFFFF000000000000, phys = 0x10000000, csize = 0x10000, avail = 0x10000\<rparr>],
       clk = None\<rparr>) \<and>
   region_size \<lparr>res_start = 0x10004000, res_end = 0x10003FFF\<rparr> = 0 \<and>
   sram_reserve_regions never_rejects True
     \<lparr>of_node = resolved [\<lparr>res_start = 0x10004000, res_end = 0x10003FFF\<rparr>],
      virt_base = 0xFFFF000000000000, pool = [], clk = None\<rparr>
     \<lparr>res_start = 0x10000000, res_end = 0x1000FFFF\<rparr>
   = (None,
      \<lparr>of_node = resolved [\<lparr>res_start = 0x10004000, res_end = 0x10003FFF\<rparr>],
       virt_base = 0xFFFF000000000000,
       pool = [\<lparr>virt = 0xFFFF000000000000, phys = 0x10000000, csize = 0x4000, avail = 0x4000\<rparr>,
               \<lparr>virt = 0xFFFF000000004000, phys = 0x10004000, csize = 0xC000, avail = 0xC000\<rparr>],
       clk = None\<rparr>)"
proof -
  let ?big = "\<lparr>res_start = 0, res_end = 0xFFFFFFFF\<rparr>"
  let ?res = "\<lparr>res_start = 0x10000000, res_end = 0x1000FFFF\<rparr>"
  let ?b = "\<lparr>start = 0x7FFFF000, size_r = 0x80001000\<rparr> :: sram_reserve"
  let ?z = "\<lparr>res_start = 0x10004000, res_end = 0x10003FFF\<rparr>"
  have 1: "unat (start ?b) = unat (0x7FFFF000 :: 64 word)" by simp
  have 2: "unat (start ?b) + unat (size_r ?b) = 0x100000000" by simp
  have 3: "cursor_trace [?b] 0x7FFFF000 = [0x7FFFF000, 0]" by code_simp
  have 4: "list_sort sram_reserve_cmp
     (map (child_block ?big)
        [\<lparr>res_start = 0x1000, res_end = 0x7FFFEFFF\<rparr>,
         \<lparr>res_start = 0x7FFFF000, res_end = 0xFFFFFFFF\<rparr>]
      @ [end_block ?big])
   = [\<lparr>start = 0, size_r = 0\<rparr>, \<lparr>start = 0x1000, size_r = 0x7FFFE000\<rparr>, ?b]"
    by code_simp
  have 5: "cursor_trace [\<lparr>start = 0, size_r = 0\<rparr>, \<lparr>start = 0x1000, size_r = 0x7FFFE000\<rparr>, ?b] 0
   = [0, 0, 0x7FFFF000, 0]"
    by code_simp
  have 6: "fst (sram_reserve_regions never_rejects True
     \<lparr>of_node = resolved [\<lparr>res_start = 0x1000, res_end = 0x7FFFEFFF\<rparr>,
                           \<lparr>res_start = 0x7FFFF000, res_end = 0xFFFFFFFF\<rparr>],
      virt_base = 0xFFFF000000000000, pool = [], clk = None\<rparr> ?big) = None"
    by code_simp
  have 7: "sram_reserve_regions never_rejects True
     \<lparr>of_node = [], virt_base = 0xFFFF000000000000, pool = [], clk = None\<rparr> ?res
   = (None,
      \<lparr>of_node = [], virt_base = 0xFFFF000000000000,
       pool = [\<lparr>virt = 0xFFFF000000000000, phys = 0x10000000, csize = 0x10000, avail = 0x10000\<rparr>],
       clk = None\<rparr>)"
    by code_simp
  have 8: "region_size ?z = 0" by (simp add: region_size_def)
  have 9: "sram_reserve_regions never_rejects True
     \<lparr>of_node = resolved [?z], virt_base = 0xFFFF000000000000, pool = [], clk = None\<rparr> ?res
   = (None,
      \<lparr>of_node = resolved [?z], virt_base = 0xFFFF000000000000,
       pool = [\<lparr>virt = 0xFFFF000000000000, phys = 0x10000000, csize = 0x4000, avail = 0x4000\<rparr>,
               \<lparr>virt = 0xFFFF000000004000, phys = 0x10004000, csize = 0xC000, avail = 0xC000\<rparr>],
       clk = None\<rparr>)"
    by code_simp
  from 1 2 3 4 5 6 7 8 9 show ?thesis by blast
qed

subsection \<open>C7\<close>

text \<open>
  C7, as it holds for the code. The step: when the next block starts beyond the cursor,
  the sum of its start and size is below \<open>2 ^ 32\<close> and the pool accepts, the chunk from
  the cursor up to the block's start is registered and the cursor moves to
  \<open>block->start + block->size\<close>. The sentinel: in a region smaller than \<open>2 ^ 31\<close> bytes
  whose reservations are ranges within it, the end block is \<open>{Region.size, 0}\<close> and is
  the last block of the sorted list, and \<open>sram_reserve_regions\<close> is the scan of the
  reservations' blocks followed by the end block alone: an error of that scan is the
  result; otherwise the cursor is at most \<open>Region.size\<close>, nothing more is registered
  when it equals \<open>Region.size\<close>, and else the one span from the cursor up to
  \<open>Region.size\<close> is registered (or the pool's rejection returned).
\<close>

theorem gap_block:
  "(unat cur < unat (start b) \<and> unat (start b) + unat (size_r b) < 2 ^ 32 \<and>
    alloc p (span_chunk vb res (unat cur, unat (start b) - unat cur)) \<longrightarrow>
      (\<exists>cur'. unat cur' = unat (start b) + unat (size_r b) \<and>
         scan_blocks alloc vb res (b # bs) cur p
           = scan_blocks alloc vb res bs cur'
               (p @ [span_chunk vb res (unat cur, unat (start b) - unat cur)]))) \<and>
   (region_below (2 ^ 31) res \<and> (\<forall>c\<in>set cs. well_formed c \<and> \<not> out_of_bounds res c) \<and>
    of_node sram = resolved cs \<longrightarrow>
      block_interval (end_block res) = (region_size res, 0) \<and>
      list_sort sram_reserve_cmp (map (child_block res) cs @ [end_block res])
        = sorted_blocks res cs @ [end_block res] \<and>
      unat (last (cursor_trace (sorted_blocks res cs) 0)) \<le> region_size res \<and>
      sram_reserve_regions alloc True sram res
        = (case fst (scan_blocks alloc (virt_base sram) res (sorted_blocks res cs) 0 (pool sram)) of
             Some e \<Rightarrow>
               (Some e, sram\<lparr>pool :=
                  snd (scan_blocks alloc (virt_base sram) res (sorted_blocks res cs) 0 (pool sram))\<rparr>)
           | None \<Rightarrow>
               if unat (last (cursor_trace (sorted_blocks res cs) 0)) = region_size res
               then (None, sram\<lparr>pool :=
                  snd (scan_blocks alloc (virt_base sram) res (sorted_blocks res cs) 0 (pool sram))\<rparr>)
               else if alloc
                    (snd (scan_blocks alloc (virt_base sram) res (sorted_blocks res cs) 0 (pool sram)))
                    (span_chunk (virt_base sram) res
                       (unat (last (cursor_trace (sorted_blocks res cs) 0)),
                        region_size res - unat (last (cursor_trace (sorted_blocks res cs) 0))))
               then (None, sram\<lparr>pool :=
                  snd (scan_blocks alloc (virt_base sram) res (sorted_blocks res cs) 0 (pool sram))
                  @ [span_chunk (virt_base sram) res
                       (unat (last (cursor_trace (sorted_blocks res cs) 0)),
                        region_size res - unat (last (cursor_trace (sorted_blocks res cs) 0)))]\<rparr>)
               else (Some (AllocatorRegistrationFailed (- ENOMEM)), sram\<lparr>pool :=
                  snd (scan_blocks alloc (virt_base sram) res (sorted_blocks res cs) 0 (pool sram))\<rparr>)))"
proof (intro conjI impI)
  assume a: "unat cur < unat (start b) \<and> unat (start b) + unat (size_r b) < 2 ^ 32 \<and>
    alloc p (span_chunk vb res (unat cur, unat (start b) - unat cur))"
  then have lt: "unat cur < unat (start b)"
    and nw: "unat (start b) + unat (size_r b) < 2 ^ 32"
    and ok: "alloc p (span_chunk vb res (unat cur, unat (start b) - unat cur))"
    by simp_all
  from gap_step[where alloc=alloc and p=p and vb=vb and res=res and bs=bs, OF lt ok]
    unat_block_end[OF nw]
  show "\<exists>cur'. unat cur' = unat (start b) + unat (size_r b) \<and>
         scan_blocks alloc vb res (b # bs) cur p
           = scan_blocks alloc vb res bs cur'
               (p @ [span_chunk vb res (unat cur, unat (start b) - unat cur)])"
    by blast
next
  assume a: "region_below (2 ^ 31) res \<and> (\<forall>c\<in>set cs. well_formed c \<and> \<not> out_of_bounds res c) \<and>
    of_node sram = resolved cs"
  then have r: "region_below (2 ^ 31) res"
    and wf: "\<forall>c\<in>set cs. well_formed c \<and> \<not> out_of_bounds res c"
    and nodes: "of_node sram = resolved cs"
    by simp_all
  note l = run_end_block_last[OF r wf nodes, of alloc]
  from l show "block_interval (end_block res) = (region_size res, 0)" by (rule conjunct1)
  from l show "list_sort sram_reserve_cmp (map (child_block res) cs @ [end_block res])
        = sorted_blocks res cs @ [end_block res]" by blast
  from l show "unat (last (cursor_trace (sorted_blocks res cs) 0)) \<le> region_size res" by blast
  from l show "sram_reserve_regions alloc True sram res
        = (case fst (scan_blocks alloc (virt_base sram) res (sorted_blocks res cs) 0 (pool sram)) of
             Some e \<Rightarrow>
               (Some e, sram\<lparr>pool :=
                  snd (scan_blocks alloc (virt_base sram) res (sorted_blocks res cs) 0 (pool sram))\<rparr>)
           | None \<Rightarrow>
               if unat (last (cursor_trace (sorted_blocks res cs) 0)) = region_size res
               then (None, sram\<lparr>pool :=
                  snd (scan_blocks alloc (virt_base sram) res (sorted_blocks res cs) 0 (pool sram))\<rparr>)
               else if alloc
                    (snd (scan_blocks alloc (virt_base sram) res (sorted_blocks res cs) 0 (pool sram)))
                    (span_chunk (virt_base sram) res
                       (unat (last (cursor_trace (sorted_blocks res cs) 0)),
                        region_size res - unat (last (cursor_trace (sorted_blocks res cs) 0))))
               then (None, sram\<lparr>pool :=
                  snd (scan_blocks alloc (virt_base sram) res (sorted_blocks res cs) 0 (pool sram))
                  @ [span_chunk (virt_base sram) res
                       (unat (last (cursor_trace (sorted_blocks res cs) 0)),
                        region_size res - unat (last (cursor_trace (sorted_blocks res cs) 0)))]\<rparr>)
               else (Some (AllocatorRegistrationFailed (- ENOMEM)), sram\<lparr>pool :=
                  snd (scan_blocks alloc (virt_base sram) res (sorted_blocks res cs) 0 (pool sram))\<rparr>))"
    by blast
qed

theorem gap_block_witness:
  "unat (0 :: 64 word) < unat (start \<lparr>start = 0x4000, size_r = 0x1000\<rparr>) \<and>
   unat (start \<lparr>start = 0x4000, size_r = 0x1000\<rparr>)
     + unat (size_r \<lparr>start = 0x4000, size_r = 0x1000\<rparr>) < 2 ^ 32 \<and>
   (\<exists>cur'. unat cur' = 0x5000 \<and>
      scan_blocks never_rejects 0xFFFF000000000000 \<lparr>res_start = 0x10000000, res_end = 0x1000FFFF\<rparr>
        [\<lparr>start = 0x4000, size_r = 0x1000\<rparr>, \<lparr>start = 0x10000, size_r = 0\<rparr>] 0 []
      = scan_blocks never_rejects 0xFFFF000000000000 \<lparr>res_start = 0x10000000, res_end = 0x1000FFFF\<rparr>
        [\<lparr>start = 0x10000, size_r = 0\<rparr>] cur'
        [span_chunk 0xFFFF000000000000 \<lparr>res_start = 0x10000000, res_end = 0x1000FFFF\<rparr> (0, 0x4000)]) \<and>
   region_below (2 ^ 31) \<lparr>res_start = 0x10000000, res_end = 0x1000FFFF\<rparr> \<and>
   well_formed \<lparr>res_start = 0x10004000, res_end = 0x10004FFF\<rparr> \<and>
   \<not> out_of_bounds \<lparr>res_start = 0x10000000, res_end = 0x1000FFFF\<rparr>
         \<lparr>res_start = 0x10004000, res_end = 0x10004FFF\<rparr> \<and>
   block_interval (end_block \<lparr>res_start = 0x10000000, res_end = 0x1000FFFF\<rparr>) = (0x10000, 0) \<and>
   list_sort sram_reserve_cmp
     (map (child_block \<lparr>res_start = 0x10000000, res_end = 0x1000FFFF\<rparr>)
        [\<lparr>res_start = 0x10004000, res_end = 0x10004FFF\<rparr>]
      @ [end_block \<lparr>res_start = 0x10000000, res_end = 0x1000FFFF\<rparr>])
   = sorted_blocks \<lparr>res_start = 0x10000000, res_end = 0x1000FFFF\<rparr>
       [\<lparr>res_start = 0x10004000, res_end = 0x10004FFF\<rparr>]
     @ [end_block \<lparr>res_start = 0x10000000, res_end = 0x1000FFFF\<rparr>] \<and>
   sram_reserve_regions never_rejects True
     \<lparr>of_node = resolved [\<lparr>res_start = 0x10004000, res_end = 0x10004FFF\<rparr>],
      virt_base = 0xFFFF000000000000, pool = [], clk = None\<rparr>
     \<lparr>res_start = 0x10000000, res_end = 0x1000FFFF\<rparr>
   = (None,
      \<lparr>of_node = resolved [\<lparr>res_start = 0x10004000, res_end = 0x10004FFF\<rparr>],
       virt_base = 0xFFFF000000000000,
       pool = [\<lparr>virt = 0xFFFF000000000000, phys = 0x10000000, csize = 0x4000, avail = 0x4000\<rparr>,
               \<lparr>virt = 0xFFFF000000005000, phys = 0x10005000, csize = 0xB000, avail = 0xB000\<rparr>],
       clk = None\<rparr>)"
proof -
  let ?res = "\<lparr>res_start = 0x10000000, res_end = 0x1000FFFF\<rparr>"
  let ?vb = "0xFFFF000000000000 :: 64 word"
  let ?c = "\<lparr>res_start = 0x10004000, res_end = 0x10004FFF\<rparr>"
  let ?b = "\<lparr>start = 0x4000, size_r = 0x1000\<rparr> :: sram_reserve"
  let ?e = "\<lparr>start = 0x10000, size_r = 0\<rparr> :: sram_reserve"
  let ?sram = "\<lparr>of_node = resolved [?c], virt_base = ?vb, pool = [], clk = None\<rparr>"
  have s1: "unat (0 :: 64 word) < unat (start ?b)" by simp
  have s2: "unat (start ?b) + unat (size_r ?b) < 2 ^ 32" by simp
  have s3: "never_rejects [] (span_chunk ?vb ?res (unat (0 :: 64 word), unat (start ?b) - unat (0 :: 64 word)))"
    by (simp add: never_rejects_def)
  have h1: "region_below (2 ^ 31) ?res"
    by (simp add: region_below_def region_size_def)
  have w: "well_formed ?c" by (simp add: well_formed_def)
  have i: "\<not> out_of_bounds ?res ?c"
    by (simp add: out_of_bounds_def reserved_interval_def region_size_def)
  have h2: "\<forall>c\<in>set [?c]. well_formed c \<and> \<not> out_of_bounds ?res c"
    using w i by simp
  have h3: "of_node ?sram = resolved [?c]" by simp
  note G = gap_block[where cur="0" and b="?b" and alloc=never_rejects and p="[]" and vb="?vb"
             and res="?res" and bs="[?e]" and cs="[?c]" and sram="?sram"]
  have "\<exists>cur'. unat cur' = unat (start ?b) + unat (size_r ?b) \<and>
          scan_blocks never_rejects ?vb ?res (?b # [?e]) 0 []
            = scan_blocks never_rejects ?vb ?res [?e] cur'
                ([] @ [span_chunk ?vb ?res (unat (0 :: 64 word), unat (start ?b) - unat (0 :: 64 word))])"
    using G s1 s2 s3 by blast
  then have c1: "\<exists>cur'. unat cur' = 0x5000 \<and>
          scan_blocks never_rejects ?vb ?res [?b, ?e] 0 []
            = scan_blocks never_rejects ?vb ?res [?e] cur' [span_chunk ?vb ?res (0, 0x4000)]"
    by (simp del: scan_blocks.simps)
  have "block_interval (end_block ?res) = (region_size ?res, 0)"
    using G h1 h2 h3 by blast
  then have c2: "block_interval (end_block ?res) = (0x10000, 0)"
    by (simp add: region_size_def del: block_interval_sel)
  have c3: "list_sort sram_reserve_cmp (map (child_block ?res) [?c] @ [end_block ?res])
      = sorted_blocks ?res [?c] @ [end_block ?res]"
    using G h1 h2 h3 by blast
  have run: "sram_reserve_regions never_rejects True ?sram ?res
   = (None,
      \<lparr>of_node = resolved [?c], virt_base = ?vb,
       pool = [\<lparr>virt = 0xFFFF000000000000, phys = 0x10000000, csize = 0x4000, avail = 0x4000\<rparr>,
               \<lparr>virt = 0xFFFF000000005000, phys = 0x10005000, csize = 0xB000, avail = 0xB000\<rparr>],
       clk = None\<rparr>)"
    by code_simp
  from s1 s2 c1 h1 w i c2 c3 run show ?thesis by blast
qed

text \<open>
  C7 as stated fails in the region of exactly \<open>2 ^ 32\<close> bytes with the reservations
  \<open>[0x3000, 0x4000)\<close> and \<open>[0x7FFFF000, 2 ^ 32)\<close>: the end block's start is truncated
  to 0, so it is not at \<open>Region.size\<close> and is scanned first, not last; and the second
  reservation, met at the cursor \<open>0x4000\<close>, moves the cursor to 0, not to \<open>2 ^ 32\<close>,
  because the sum wraps at 32 bits.
\<close>

theorem gap_block_counterexample:
  "well_formed \<lparr>res_start = 0x3000, res_end = 0x3FFF\<rparr> \<and>
   \<not> out_of_bounds \<lparr>res_start = 0, res_end = 0xFFFFFFFF\<rparr> \<lparr>res_start = 0x3000, res_end = 0x3FFF\<rparr> \<and>
   well_formed \<lparr>res_start = 0x7FFFF000, res_end = 0xFFFFFFFF\<rparr> \<and>
   \<not> out_of_bounds \<lparr>res_start = 0, res_end = 0xFFFFFFFF\<rparr>
         \<lparr>res_start = 0x7FFFF000, res_end = 0xFFFFFFFF\<rparr> \<and>
   region_size \<lparr>res_start = 0, res_end = 0xFFFFFFFF\<rparr> = 0x100000000 \<and>
   end_block \<lparr>res_start = 0, res_end = 0xFFFFFFFF\<rparr> = \<lparr>start = 0, size_r = 0\<rparr> \<and>
   list_sort sram_reserve_cmp
     (map (child_block \<lparr>res_start = 0, res_end = 0xFFFFFFFF\<rparr>)
        [\<lparr>res_start = 0x3000, res_end = 0x3FFF\<rparr>,
         \<lparr>res_start = 0x7FFFF000, res_end = 0xFFFFFFFF\<rparr>]
      @ [end_block \<lparr>res_start = 0, res_end = 0xFFFFFFFF\<rparr>])
   = [\<lparr>start = 0, size_r = 0\<rparr>, \<lparr>start = 0x3000, size_r = 0x1000\<rparr>,
      \<lparr>start = 0x7FFFF000, size_r = 0x80001000\<rparr>] \<and>
   cursor_trace [\<lparr>start = 0, size_r = 0\<rparr>, \<lparr>start = 0x3000, size_r = 0x1000\<rparr>,
                 \<lparr>start = 0x7FFFF000, size_r = 0x80001000\<rparr>] 0
   = [0, 0, 0x4000, 0] \<and>
   unat (start \<lparr>start = 0x7FFFF000, size_r = 0x80001000\<rparr>)
     + unat (size_r \<lparr>start = 0x7FFFF000, size_r = 0x80001000\<rparr>) = 0x100000000 \<and>
   sram_reserve_regions never_rejects True
     \<lparr>of_node = resolved [\<lparr>res_start = 0x3000, res_end = 0x3FFF\<rparr>,
                           \<lparr>res_start = 0x7FFFF000, res_end = 0xFFFFFFFF\<rparr>],
      virt_base = 0xFFFF000000000000, pool = [], clk = None\<rparr>
     \<lparr>res_start = 0, res_end = 0xFFFFFFFF\<rparr>
   = (None,
      \<lparr>of_node = resolved [\<lparr>res_start = 0x3000, res_end = 0x3FFF\<rparr>,
                            \<lparr>res_start = 0x7FFFF000, res_end = 0xFFFFFFFF\<rparr>],
       virt_base = 0xFFFF000000000000,
       pool = [\<lparr>virt = 0xFFFF000000000000, phys = 0, csize = 0x3000, avail = 0x3000\<rparr>,
               \<lparr>virt = 0xFFFF000000004000, phys = 0x4000, csize = 0x7FFFB000, avail = 0x7FFFB000\<rparr>],
       clk = None\<rparr>)"
proof -
  let ?res = "\<lparr>res_start = 0, res_end = 0xFFFFFFFF\<rparr>"
  let ?a = "\<lparr>res_start = 0x3000, res_end = 0x3FFF\<rparr>"
  let ?b = "\<lparr>res_start = 0x7FFFF000, res_end = 0xFFFFFFFF\<rparr>"
  have wa: "well_formed ?a" and wb: "well_formed ?b" by (simp_all add: well_formed_def)
  have ia: "\<not> out_of_bounds ?res ?a" and ib: "\<not> out_of_bounds ?res ?b"
    by (simp_all add: out_of_bounds_def reserved_interval_def region_size_def)
  have sz: "region_size ?res = 0x100000000" by (simp add: region_size_def)
  have e: "end_block ?res = \<lparr>start = 0, size_r = 0\<rparr>"
    by (simp add: end_block_def resource_size_def)
  have s: "list_sort sram_reserve_cmp (map (child_block ?res) [?a, ?b] @ [end_block ?res])
      = [\<lparr>start = 0, size_r = 0\<rparr>, \<lparr>start = 0x3000, size_r = 0x1000\<rparr>,
         \<lparr>start = 0x7FFFF000, size_r = 0x80001000\<rparr>]"
    by code_simp
  have tr: "cursor_trace [\<lparr>start = 0, size_r = 0\<rparr>, \<lparr>start = 0x3000, size_r = 0x1000\<rparr>,
                 \<lparr>start = 0x7FFFF000, size_r = 0x80001000\<rparr>] 0 = [0, 0, 0x4000, 0]"
    by code_simp
  have sum: "unat (start \<lparr>start = 0x7FFFF000, size_r = 0x80001000\<rparr>)
     + unat (size_r \<lparr>start = 0x7FFFF000, size_r = 0x80001000\<rparr>) = 0x100000000"
    by simp
  have run: "sram_reserve_regions never_rejects True
     \<lparr>of_node = resolved [?a, ?b], virt_base = 0xFFFF000000000000, pool = [], clk = None\<rparr> ?res
   = (None,
      \<lparr>of_node = resolved [?a, ?b], virt_base = 0xFFFF000000000000,
       pool = [\<lparr>virt = 0xFFFF000000000000, phys = 0, csize = 0x3000, avail = 0x3000\<rparr>,
               \<lparr>virt = 0xFFFF000000004000, phys = 0x4000, csize = 0x7FFFB000, avail = 0x7FFFB000\<rparr>],
       clk = None\<rparr>)"
    by code_simp
  from wa wb ia ib sz e s tr sum run show ?thesis by blast
qed

subsection \<open>C8\<close>

text \<open>
  C8: \<open>sram_remove\<close> returns 0 whatever the state of the pool; allocations still
  outstanding only add the message; the clock, when there is one, is disabled, and the
  pool is not touched.
\<close>

theorem remove_succeeds:
  "fst (sram_remove sram) = 0 \<and>
   fst (snd (sram_remove sram))
     = (if gen_pool_avail (pool sram) < gen_pool_size (pool sram)
        then [Removed_while_allocated] else []) \<and>
   clk (snd (snd (sram_remove sram))) = map_option (\<lambda>_. False) (clk sram) \<and>
   pool (snd (snd (sram_remove sram))) = pool sram"
  by (simp add: sram_remove_def Let_def split: option.split)

subsection \<open>C9\<close>

text \<open>
  C9 fails on the code: the difference of two starts that are \<open>2 ^ 31\<close> or more apart
  does not fit the \<open>int\<close> that is returned. The end block of a region of 3 GiB
  compares as smaller than a block at offset \<open>0x10000000\<close>, in both directions of the
  call, is sorted first, and the single, valid reservation is rejected as an overlap
  after the whole region has been registered as free.
\<close>

theorem cmp_overflow:
  "start \<lparr>start = 0x10000000, size_r = 0x1000\<rparr> < start \<lparr>start = 0xC0000000, size_r = 0\<rparr> \<and>
   sram_reserve_cmp \<lparr>start = 0xC0000000, size_r = 0\<rparr> \<lparr>start = 0x10000000, size_r = 0x1000\<rparr> < 0 \<and>
   0 < sram_reserve_cmp \<lparr>start = 0x10000000, size_r = 0x1000\<rparr> \<lparr>start = 0xC0000000, size_r = 0\<rparr> \<and>
   sram_reserve_regions never_rejects True
     \<lparr>of_node = resolved [\<lparr>res_start = 0x10000000, res_end = 0x10000FFF\<rparr>],
      virt_base = 0xFFFF000000000000, pool = [], clk = None\<rparr>
     \<lparr>res_start = 0, res_end = 0xBFFFFFFF\<rparr>
   = (Some OverlapDetected,
      \<lparr>of_node = resolved [\<lparr>res_start = 0x10000000, res_end = 0x10000FFF\<rparr>],
       virt_base = 0xFFFF000000000000,
       pool = [\<lparr>virt = 0xFFFF000000000000, phys = 0, csize = 0xC0000000, avail = 0xC0000000\<rparr>],
       clk = None\<rparr>)"
proof -
  have "start \<lparr>start = 0x10000000, size_r = 0x1000\<rparr> < start \<lparr>start = 0xC0000000, size_r = 0\<rparr>"
    by simp
  moreover have "sram_reserve_cmp \<lparr>start = 0xC0000000, size_r = 0\<rparr>
                   \<lparr>start = 0x10000000, size_r = 0x1000\<rparr> < 0"
    by (simp add: sram_reserve_cmp_def)
  moreover have "0 < sram_reserve_cmp \<lparr>start = 0x10000000, size_r = 0x1000\<rparr>
                   \<lparr>start = 0xC0000000, size_r = 0\<rparr>"
    by (simp add: sram_reserve_cmp_def)
  moreover have "sram_reserve_regions never_rejects True
     \<lparr>of_node = resolved [\<lparr>res_start = 0x10000000, res_end = 0x10000FFF\<rparr>],
      virt_base = 0xFFFF000000000000, pool = [], clk = None\<rparr>
     \<lparr>res_start = 0, res_end = 0xBFFFFFFF\<rparr>
   = (Some OverlapDetected,
      \<lparr>of_node = resolved [\<lparr>res_start = 0x10000000, res_end = 0x10000FFF\<rparr>],
       virt_base = 0xFFFF000000000000,
       pool = [\<lparr>virt = 0xFFFF000000000000, phys = 0, csize = 0xC0000000, avail = 0xC0000000\<rparr>],
       clk = None\<rparr>)"
    by code_simp
  ultimately show ?thesis by blast
qed

subsection \<open>C10\<close>

text \<open>
  C10, as it holds for the code: in a region smaller than \<open>2 ^ 32\<close> bytes with
  reservations that are ranges, along an accepted run the cursor never decreases and never
  exceeds \<open>Region.size\<close>; the registered free spans are not empty, end at or before
  \<open>Region.size\<close>, and each ends at or before the start of every later one, so that they
  are pairwise disjoint and strictly ascending.
\<close>

theorem scan_invariants:
  assumes r: "region_below (2 ^ 32) res"
    and wf: "\<forall>c\<in>set cs. well_formed c"
    and nodes: "of_node sram = resolved cs"
    and acc: "sram_reserve_regions alloc km sram res = (None, sram')"
  shows "sorted (map unat (cursor_trace
                   (list_sort sram_reserve_cmp (map (child_block res) cs @ [end_block res])) 0)) \<and>
         (\<forall>y\<in>set (cursor_trace
                   (list_sort sram_reserve_cmp (map (child_block res) cs @ [end_block res])) 0).
            unat y \<le> region_size res) \<and>
         (\<exists>sp. pool sram' = pool sram @ map (span_chunk (virt_base sram) res) sp \<and>
               (\<forall>s\<in>set sp. 0 < snd s \<and> fst s + snd s \<le> region_size res) \<and>
               sorted_wrt (\<lambda>s t. fst s + snd s \<le> fst t \<and> fst s < fst t) sp)"
proof -
  let ?sorted = "list_sort sram_reserve_cmp (map (child_block res) cs @ [end_block res])"
  from accepted_run[OF r wf nodes acc] obtain sp where
    g: "gap_resolver (map block_interval ?sorted) 0 = Some sp"
    and p: "pool sram' = pool sram @ map (span_chunk (virt_base sram) res) sp"
    and ins: "\<forall>c\<in>set cs. \<not> outside res c"
    by blast
  have fin: "final_cursor (map block_interval ?sorted) 0 = region_size res"
    by (rule accepted_final_cursor[OF r wf ins g])
  have lt: "region_size res < 2 ^ 32" using r by (simp add: region_below_def)
  have nw: "\<forall>b\<in>set ?sorted. unat (start b) + unat (size_r b) < 2 ^ 32"
    using no_wrap_blocks[OF r wf ins] lt by (simp del: set_append) (meson le_less_trans)
  have tr: "map unat (cursor_trace ?sorted 0) = cursors (map block_interval ?sorted) 0"
    using cursor_trace_cursors[OF nw, of 0] by simp
  have 1: "sorted (map unat (cursor_trace ?sorted 0))"
    using gap_resolver_cursors[OF g] by (simp add: tr)
  have "\<forall>y\<in>set (map unat (cursor_trace ?sorted 0)). y \<le> region_size res"
    using gap_resolver_cursors[OF g] by (simp only: tr fin) blast
  then have 2: "\<forall>y\<in>set (cursor_trace ?sorted 0). unat y \<le> region_size res"
    by simp
  have 3: "\<forall>s\<in>set sp. 0 < snd s \<and> fst s + snd s \<le> region_size res"
    using gap_resolver_spans[OF g] by (simp add: fin)
  have s: "sorted_wrt (\<lambda>s t. fst s + snd s \<le> fst t) sp"
    using gap_resolver_spans[OF g] by simp
  have 4: "sorted_wrt (\<lambda>s t. fst s + snd s \<le> fst t \<and> fst s < fst t) sp"
  proof (rule sorted_wrt_mono_rel[OF _ s])
    fix a b
    assume "a \<in> set sp" and "b \<in> set sp" and "fst a + snd a \<le> fst b"
    with 3 show "fst a + snd a \<le> fst b \<and> fst a < fst b" by fastforce
  qed
  from 1 2 p 3 4 show ?thesis by blast
qed

theorem scan_invariants_witness:
  "region_below (2 ^ 32) \<lparr>res_start = 0x10000000, res_end = 0x1000FFFF\<rparr> \<and>
   well_formed \<lparr>res_start = 0x10004000, res_end = 0x10004FFF\<rparr> \<and>
   sram_reserve_regions never_rejects True
     \<lparr>of_node = resolved [\<lparr>res_start = 0x10004000, res_end = 0x10004FFF\<rparr>],
      virt_base = 0xFFFF000000000000, pool = [], clk = None\<rparr>
     \<lparr>res_start = 0x10000000, res_end = 0x1000FFFF\<rparr>
   = (None,
      \<lparr>of_node = resolved [\<lparr>res_start = 0x10004000, res_end = 0x10004FFF\<rparr>],
       virt_base = 0xFFFF000000000000,
       pool = [\<lparr>virt = 0xFFFF000000000000, phys = 0x10000000, csize = 0x4000, avail = 0x4000\<rparr>,
               \<lparr>virt = 0xFFFF000000005000, phys = 0x10005000, csize = 0xB000, avail = 0xB000\<rparr>],
       clk = None\<rparr>) \<and>
   map unat (cursor_trace
     (list_sort sram_reserve_cmp
        (map (child_block \<lparr>res_start = 0x10000000, res_end = 0x1000FFFF\<rparr>)
           [\<lparr>res_start = 0x10004000, res_end = 0x10004FFF\<rparr>]
         @ [end_block \<lparr>res_start = 0x10000000, res_end = 0x1000FFFF\<rparr>])) 0)
   = [0, 0x5000, 0x10000] \<and>
   sorted (map unat (cursor_trace
     (list_sort sram_reserve_cmp
        (map (child_block \<lparr>res_start = 0x10000000, res_end = 0x1000FFFF\<rparr>)
           [\<lparr>res_start = 0x10004000, res_end = 0x10004FFF\<rparr>]
         @ [end_block \<lparr>res_start = 0x10000000, res_end = 0x1000FFFF\<rparr>])) 0)) \<and>
   (\<exists>sp. [\<lparr>virt = 0xFFFF000000000000, phys = 0x10000000, csize = 0x4000, avail = 0x4000\<rparr>,
          \<lparr>virt = 0xFFFF000000005000, phys = 0x10005000, csize = 0xB000, avail = 0xB000\<rparr>]
         = map (span_chunk 0xFFFF000000000000 \<lparr>res_start = 0x10000000, res_end = 0x1000FFFF\<rparr>) sp \<and>
         (\<forall>s\<in>set sp. 0 < snd s \<and>
            fst s + snd s \<le> region_size \<lparr>res_start = 0x10000000, res_end = 0x1000FFFF\<rparr>) \<and>
         sorted_wrt (\<lambda>s t. fst s + snd s \<le> fst t \<and> fst s < fst t) sp)"
proof -
  let ?res = "\<lparr>res_start = 0x10000000, res_end = 0x1000FFFF\<rparr>"
  let ?c = "\<lparr>res_start = 0x10004000, res_end = 0x10004FFF\<rparr>"
  let ?sram = "\<lparr>of_node = resolved [?c], virt_base = 0xFFFF000000000000, pool = [], clk = None\<rparr>"
  let ?sram' = "\<lparr>of_node = resolved [?c], virt_base = 0xFFFF000000000000,
       pool = [\<lparr>virt = 0xFFFF000000000000, phys = 0x10000000, csize = 0x4000, avail = 0x4000\<rparr>,
               \<lparr>virt = 0xFFFF000000005000, phys = 0x10005000, csize = 0xB000, avail = 0xB000\<rparr>],
       clk = None\<rparr>"
  have h1: "region_below (2 ^ 32) ?res"
    by (simp add: region_below_def region_size_def)
  have h2: "well_formed ?c"
    by (simp add: well_formed_def)
  have h2': "\<forall>c\<in>set [?c]. well_formed c"
    using h2 by simp
  have h3: "of_node ?sram = resolved [?c]"
    by simp
  have h4: "sram_reserve_regions never_rejects True ?sram ?res = (None, ?sram')"
    by code_simp
  have "cursor_trace
     (list_sort sram_reserve_cmp (map (child_block ?res) [?c] @ [end_block ?res])) 0
   = [0, 0x5000, 0x10000]"
    by code_simp
  then have tr: "map unat (cursor_trace
     (list_sort sram_reserve_cmp (map (child_block ?res) [?c] @ [end_block ?res])) 0)
   = [0, 0x5000, 0x10000]"
    by simp
  from scan_invariants[OF h1 h2' h3 h4]
  have "sorted (map unat (cursor_trace
          (list_sort sram_reserve_cmp (map (child_block ?res) [?c] @ [end_block ?res])) 0))"
    and "\<exists>sp. pool ?sram' = pool ?sram @ map (span_chunk (virt_base ?sram) ?res) sp \<and>
               (\<forall>s\<in>set sp. 0 < snd s \<and> fst s + snd s \<le> region_size ?res) \<and>
               sorted_wrt (\<lambda>s t. fst s + snd s \<le> fst t \<and> fst s < fst t) sp"
    by blast+
  then have "sorted (map unat (cursor_trace
          (list_sort sram_reserve_cmp (map (child_block ?res) [?c] @ [end_block ?res])) 0))"
    and "\<exists>sp. [\<lparr>virt = 0xFFFF000000000000, phys = 0x10000000, csize = 0x4000, avail = 0x4000\<rparr>,
          \<lparr>virt = 0xFFFF000000005000, phys = 0x10005000, csize = 0xB000, avail = 0xB000\<rparr>]
         = map (span_chunk 0xFFFF000000000000 ?res) sp \<and>
         (\<forall>s\<in>set sp. 0 < snd s \<and> fst s + snd s \<le> region_size ?res) \<and>
         sorted_wrt (\<lambda>s t. fst s + snd s \<le> fst t \<and> fst s < fst t) sp"
    by simp_all
  with h1 h2 h4 tr show ?thesis by blast
qed

text \<open>
  C10 as stated fails in the region of exactly \<open>2 ^ 32\<close> bytes: a reservation that
  ends at the end of the region is within bounds, but the sum of its start and size wraps
  to 0 at 32 bits, and the cursor of the accepted run falls from \<open>0x2000\<close> back to 0.
\<close>

theorem scan_invariants_counterexample:
  "well_formed \<lparr>res_start = 0x1000, res_end = 0x1FFF\<rparr> \<and>
   \<not> out_of_bounds \<lparr>res_start = 0, res_end = 0xFFFFFFFF\<rparr> \<lparr>res_start = 0x1000, res_end = 0x1FFF\<rparr> \<and>
   well_formed \<lparr>res_start = 0x7FFFF000, res_end = 0xFFFFFFFF\<rparr> \<and>
   \<not> out_of_bounds \<lparr>res_start = 0, res_end = 0xFFFFFFFF\<rparr>
         \<lparr>res_start = 0x7FFFF000, res_end = 0xFFFFFFFF\<rparr> \<and>
   fst (sram_reserve_regions never_rejects True
     \<lparr>of_node = resolved [\<lparr>res_start = 0x1000, res_end = 0x1FFF\<rparr>,
                           \<lparr>res_start = 0x7FFFF000, res_end = 0xFFFFFFFF\<rparr>],
      virt_base = 0xFFFF000000000000, pool = [], clk = None\<rparr>
     \<lparr>res_start = 0, res_end = 0xFFFFFFFF\<rparr>) = None \<and>
   map unat (cursor_trace
     (list_sort sram_reserve_cmp
        (map (child_block \<lparr>res_start = 0, res_end = 0xFFFFFFFF\<rparr>)
           [\<lparr>res_start = 0x1000, res_end = 0x1FFF\<rparr>,
            \<lparr>res_start = 0x7FFFF000, res_end = 0xFFFFFFFF\<rparr>]
         @ [end_block \<lparr>res_start = 0, res_end = 0xFFFFFFFF\<rparr>])) 0)
   = [0, 0, 0x2000, 0] \<and>
   \<not> sorted (map unat (cursor_trace
     (list_sort sram_reserve_cmp
        (map (child_block \<lparr>res_start = 0, res_end = 0xFFFFFFFF\<rparr>)
           [\<lparr>res_start = 0x1000, res_end = 0x1FFF\<rparr>,
            \<lparr>res_start = 0x7FFFF000, res_end = 0xFFFFFFFF\<rparr>]
         @ [end_block \<lparr>res_start = 0, res_end = 0xFFFFFFFF\<rparr>])) 0))"
proof -
  let ?res = "\<lparr>res_start = 0, res_end = 0xFFFFFFFF\<rparr>"
  let ?a = "\<lparr>res_start = 0x1000, res_end = 0x1FFF\<rparr>"
  let ?b = "\<lparr>res_start = 0x7FFFF000, res_end = 0xFFFFFFFF\<rparr>"
  have wa: "well_formed ?a" and wb: "well_formed ?b" by (simp_all add: well_formed_def)
  have ia: "\<not> out_of_bounds ?res ?a" and ib: "\<not> out_of_bounds ?res ?b"
    by (simp_all add: out_of_bounds_def reserved_interval_def region_size_def)
  have run: "fst (sram_reserve_regions never_rejects True
     \<lparr>of_node = resolved [?a, ?b], virt_base = 0xFFFF000000000000, pool = [], clk = None\<rparr> ?res) = None"
    by code_simp
  have "cursor_trace
     (list_sort sram_reserve_cmp (map (child_block ?res) [?a, ?b] @ [end_block ?res])) 0
   = [0, 0, 0x2000, 0]"
    by code_simp
  then have tr: "map unat (cursor_trace
     (list_sort sram_reserve_cmp (map (child_block ?res) [?a, ?b] @ [end_block ?res])) 0)
   = [0, 0, 0x2000, 0]"
    by simp
  have ns: "\<not> sorted (map unat (cursor_trace
     (list_sort sram_reserve_cmp (map (child_block ?res) [?a, ?b] @ [end_block ?res])) 0))"
    by (simp only: tr) simp
  from wa wb ia ib run tr ns show ?thesis by blast
qed

end
